theory Spec2Isabelle
  imports Main
begin

section \<open>nodify-express: the two example servers\<close>

text \<open>
  The repository holds two scripts, \<^verbatim>\<open>001_static.js\<close> (one server) and
  \<^verbatim>\<open>002_https.js\<close> (one server per element of an \<^verbatim>\<open>options\<close> array).
  Both are straight-line start-up code around the express framework: they create
  server objects, register middleware, install a SIGHUP handler and bind ports.
  The embedding keeps the scripts' statements in their order. Every call into
  express, fs, process or console is recorded as an event in a trace, so that
  the order of the calls can be stated; the server objects carry what the calls
  did to them.
\<close>

subsection \<open>JavaScript values the scripts test\<close>

text \<open>
  A property that may be missing is an \<open>option\<close>: \<open>None\<close> is \<^verbatim>\<open>undefined\<close>.
  The scripts test properties with \<^verbatim>\<open>if( x )\<close>, \<^verbatim>\<open>x && y\<close> and
  \<^verbatim>\<open>x || d\<close>, which ask for truthiness: an object is always truthy, a
  string is truthy unless empty, a number unless zero, \<^verbatim>\<open>undefined\<close> never.
\<close>

definition truthy_obj :: "'a option \<Rightarrow> bool" where
  "truthy_obj x = (x \<noteq> None)"

definition truthy_str :: "string option \<Rightarrow> bool" where
  "truthy_str x = (case x of None \<Rightarrow> False | Some s \<Rightarrow> s \<noteq> [])"

definition truthy_num :: "int option \<Rightarrow> bool" where
  "truthy_num x = (case x of None \<Rightarrow> False | Some n \<Rightarrow> n \<noteq> 0)"

text \<open>\<^verbatim>\<open>x || d\<close> on a number that may be missing.\<close>

definition or_num :: "int option \<Rightarrow> int \<Rightarrow> int" where
  "or_num x d = (if truthy_num x then the x else d)"

text \<open>Octal literals of the scripts: \<^verbatim>\<open>0644\<close> and \<^verbatim>\<open>0666\<close>.\<close>

definition octal_0644 :: int where
  "octal_0644 = 6 * 64 + 4 * 8 + 4"

definition octal_0666 :: int where
  "octal_0666 = 6 * 64 + 6 * 8 + 6"

text \<open>String conversion in \<^verbatim>\<open>'...' + x\<close>: decimal digits for an integer.\<close>

fun digits :: "nat \<Rightarrow> string" where
  "digits n = (if n < 10 then [char_of (48 + n)]
               else digits (n div 10) @ [char_of (48 + n mod 10)])"

definition str_of_int :: "int \<Rightarrow> string" where
  "str_of_int n = (if n < 0 then CHR ''-'' # digits (nat (- n)) else digits (nat n))"

definition str_of_num :: "int option \<Rightarrow> string" where
  "str_of_num x = (case x of None \<Rightarrow> ''undefined'' | Some n \<Rightarrow> str_of_int n)"

definition str_of_str :: "string option \<Rightarrow> string" where
  "str_of_str x = (case x of None \<Rightarrow> ''undefined'' | Some s \<Rightarrow> s)"

subsection \<open>The option records\<close>

record listen_opts =
  listen_port :: "int option"
  listen_host :: "string option"

record serve_opts =
  maxAge :: "int option"

record static_opts =
  static_path :: "string option"
  static_options :: "serve_opts option"

text \<open>
  What \<^verbatim>\<open>fs.createWriteStream( path, { flags, encoding, mode } )\<close> was called
  with; the stream object is identified with these arguments.
\<close>

record write_stream =
  ws_path :: string
  ws_flags :: string
  ws_encoding :: string
  ws_mode :: int

record logger_opts =
  logger_path :: "string option"
  logger_mode :: "int option"
  logger_stream :: "write_stream option"

record favicon_opts =
  favicon_path :: "string option"

record directory_opts =
  directory_path :: "string option"
  directory_icons :: "bool option"

record option_record =
  name :: "string option"
  key_path :: "string option"
  cert_path :: "string option"
  listen :: "listen_opts option"
  static :: "static_opts option"
  logger :: "logger_opts option"
  favicon :: "favicon_opts option"
  directory :: "directory_opts option"

subsection \<open>Servers, events and the world\<close>

text \<open>
  The middleware values are the calls the scripts make, with their arguments:
  \<^verbatim>\<open>express.favicon( path )\<close>, \<^verbatim>\<open>express.logger( opts )\<close>,
  \<^verbatim>\<open>express.static( path, options )\<close>, \<^verbatim>\<open>express.directory( path, opts )\<close>.
\<close>

datatype middleware =
    Favicon "string option"
  | Logger logger_opts
  | Static string "serve_opts option"
  | Directory string directory_opts

datatype sock_state = Created | Listening "int option" "string option" | Closed

record server =
  sid :: nat
  tls :: "(string \<times> string) option"
  stack :: "middleware list"
  sock :: sock_state

datatype event =
    ReadFileSync string
  | CreateServer nat "(string \<times> string) option"
  | Use nat middleware
  | CreateWriteStream write_stream
  | OnSIGHUP
  | Listen nat "int option" "string option"
  | Close nat
  | ConsoleLog string

datatype error = ENOENT string | TypeError string

text \<open>
  The world outside the script: the files (path to contents), the calls made so
  far, and how many server objects exist (the next object's identity).
\<close>

record world =
  files :: "string \<rightharpoonup> string"
  trace :: "event list"
  servers :: nat

definition emit :: "event \<Rightarrow> world \<Rightarrow> world" where
  "emit e w = w\<lparr>trace := trace w @ [e]\<rparr>"

subsection \<open>The framework calls the scripts make\<close>

text \<open>
  The functions of this subsection belong to express, to \<^verbatim>\<open>fs\<close> and to the
  runtime, which the scripts only call. Each is reduced to what the scripts rely
  on and the spec states of it: section 4.2 for the file reads and the two kinds
  of server, section 2 for \<^verbatim>\<open>use\<close> (middleware is kept in registration order),
  section 3 for the log stream, section 4.4 for \<^verbatim>\<open>listen\<close> and \<^verbatim>\<open>close\<close>
  (created, listening, closed). Failures the runtime reports after the script
  has returned to the event loop, such as a port in use, are outside the scripts.

  \<^verbatim>\<open>fs.readFileSync( path )\<close> returns the contents or throws; an exception nobody
  catches ends the script, so it is the \<open>Inl\<close> result of everything that follows.
\<close>

definition readFileSync :: "string \<Rightarrow> world \<Rightarrow> error + world \<times> string" where
  "readFileSync p w =
     (case files w p of
        None \<Rightarrow> Inl (ENOENT p)
      | Some c \<Rightarrow> Inr (emit (ReadFileSync p) w, c))"

text \<open>
  \<^verbatim>\<open>express.createServer( [credentials] )\<close>: a new server object, no middleware,
  not bound. With credentials it is an encrypted listener, without a plaintext one.
\<close>

definition createServer :: "(string \<times> string) option \<Rightarrow> world \<Rightarrow> world \<times> server" where
  "createServer cred w =
     (emit (CreateServer (servers w) cred) (w\<lparr>servers := Suc (servers w)\<rparr>),
      \<lparr>sid = servers w, tls = cred, stack = [], sock = Created\<rparr>)"

text \<open>\<^verbatim>\<open>app.use( m )\<close> appends to the server's middleware stack.\<close>

definition use :: "middleware \<Rightarrow> world \<times> server \<Rightarrow> world \<times> server" where
  "use m ws = (case ws of (w, s) \<Rightarrow>
     (emit (Use (sid s) m) w, s\<lparr>stack := stack s @ [m]\<rparr>))"

text \<open>
  \<^verbatim>\<open>fs.createWriteStream\<close> returns at once; the file is opened by the runtime
  afterwards, so the call changes no file while the script runs and reports no
  failure to it. Flags \<^verbatim>\<open>'w'\<close> ask the runtime to create the file or truncate it.
\<close>

definition createWriteStream ::
  "string \<Rightarrow> string \<Rightarrow> string \<Rightarrow> int \<Rightarrow> world \<Rightarrow> world \<times> write_stream" where
  "createWriteStream p fl enc m w =
     (emit (CreateWriteStream \<lparr>ws_path = p, ws_flags = fl, ws_encoding = enc, ws_mode = m\<rparr>) w,
      \<lparr>ws_path = p, ws_flags = fl, ws_encoding = enc, ws_mode = m\<rparr>)"

text \<open>\<^verbatim>\<open>app.listen( port, host )\<close> binds the server's socket and returns.\<close>

definition listen_on :: "int option \<Rightarrow> string option \<Rightarrow> world \<times> server \<Rightarrow> world \<times> server" where
  "listen_on p h ws = (case ws of (w, s) \<Rightarrow>
     (emit (Listen (sid s) p h) w, s\<lparr>sock := Listening p h\<rparr>))"

text \<open>
  \<^verbatim>\<open>app.close()\<close> closes a listening socket. What the framework does to a server
  that is not listening is left out: such a server keeps its state here.
\<close>

definition close :: "world \<times> server \<Rightarrow> world \<times> server" where
  "close ws = (case ws of (w, s) \<Rightarrow>
     (emit (Close (sid s)) w,
      s\<lparr>sock := (case sock s of Listening p h \<Rightarrow> Closed | other \<Rightarrow> other)\<rparr>))"

definition console_log :: "string \<Rightarrow> world \<Rightarrow> world" where
  "console_log line w = emit (ConsoleLog line) w"

subsection \<open>Step 4 of both scripts: middleware registration\<close>

text \<open>
  The four statements are the same in both scripts (\<^verbatim>\<open>001_static.js\<close> lines
  122 to 164 on \<^verbatim>\<open>options\<close> and \<^verbatim>\<open>app\<close>, \<^verbatim>\<open>002_https.js\<close> lines 113 to
  128 on \<^verbatim>\<open>options[i]\<close> and \<^verbatim>\<open>current\<close>). The logger statement also writes
  the stream into the option record, so the record is part of the state.
\<close>

type_synonym config = "world \<times> server \<times> option_record"

definition register_favicon :: "config \<Rightarrow> config" where
  "register_favicon c = (case c of (w, s, r) \<Rightarrow>
     (case favicon r of
        None \<Rightarrow> (w, s, r)
      | Some f \<Rightarrow> (case use (Favicon (favicon_path f)) (w, s) of (w', s') \<Rightarrow> (w', s', r))))"

definition register_logger :: "config \<Rightarrow> config" where
  "register_logger c = (case c of (w, s, r) \<Rightarrow>
     (case logger r of
        None \<Rightarrow> (w, s, r)
      | Some l \<Rightarrow>
          if truthy_str (logger_path l) then
            (case createWriteStream (the (logger_path l)) ''w'' ''utf-8''
                    (or_num (logger_mode l) octal_0644) w of
               (w1, strm) \<Rightarrow>
                 (case use (Logger (l\<lparr>logger_stream := Some strm\<rparr>)) (w1, s) of
                    (w2, s') \<Rightarrow>
                      (w2, s', r\<lparr>logger := Some (l\<lparr>logger_stream := Some strm\<rparr>)\<rparr>)))
          else (w, s, r)))"

definition register_static :: "config \<Rightarrow> config" where
  "register_static c = (case c of (w, s, r) \<Rightarrow>
     (case static r of
        None \<Rightarrow> (w, s, r)
      | Some t \<Rightarrow>
          if truthy_str (static_path t) then
            (case use (Static (the (static_path t)) (static_options t)) (w, s) of
               (w', s') \<Rightarrow> (w', s', r))
          else (w, s, r)))"

definition register_directory :: "config \<Rightarrow> config" where
  "register_directory c = (case c of (w, s, r) \<Rightarrow>
     (case directory r of
        None \<Rightarrow> (w, s, r)
      | Some d \<Rightarrow>
          if truthy_str (directory_path d) then
            (case use (Directory (the (directory_path d)) d) (w, s) of
               (w', s') \<Rightarrow> (w', s', r))
          else (w, s, r)))"

definition register_middleware :: "config \<Rightarrow> config" where
  "register_middleware c =
     register_directory (register_static (register_logger (register_favicon c)))"

subsection \<open>\<^verbatim>\<open>001_static.js\<close>\<close>

text \<open>\<^verbatim>\<open>__dirname\<close> is a parameter of the option values the scripts ship with.\<close>

definition options_001 :: "string \<Rightarrow> option_record" where
  "options_001 dirname =
     \<lparr>name = None, key_path = None, cert_path = None,
      listen = Some \<lparr>listen_port = Some 10100, listen_host = None\<rparr>,
      static = Some \<lparr>static_path = Some (dirname @ ''/static''),
                     static_options = Some \<lparr>maxAge = Some 3600000\<rparr>\<rparr>,
      logger = Some \<lparr>logger_path = Some (dirname @ ''/001_static.log''),
                     logger_mode = Some octal_0666, logger_stream = None\<rparr>,
      favicon = Some \<lparr>favicon_path = None\<rparr>,
      directory = Some \<lparr>directory_path = Some (dirname @ ''/static''),
                        directory_icons = Some True\<rparr>\<rparr>"

text \<open>Lines 187 to 189: the guarded \<^verbatim>\<open>app.listen\<close>.\<close>

definition bind :: "config \<Rightarrow> config" where
  "bind c = (case c of (w, s, r) \<Rightarrow>
     (case listen r of
        None \<Rightarrow> (w, s, r)
      | Some l \<Rightarrow>
          if truthy_num (listen_port l) then
            (case listen_on (listen_port l) (listen_host l) (w, s) of
               (w', s') \<Rightarrow> (w', s', r))
          else (w, s, r)))"

text \<open>
  Line 191 reads \<^verbatim>\<open>options.listen.port\<close> with no guard: when \<^verbatim>\<open>options.listen\<close>
  is undefined the property access throws a TypeError.
\<close>

definition startup_line :: "config \<Rightarrow> error + config" where
  "startup_line c = (case c of (w, s, r) \<Rightarrow>
     (case listen r of
        None \<Rightarrow> Inl (TypeError ''options.listen is undefined'')
      | Some l \<Rightarrow>
          Inr (console_log (''listening for requests on port '' @ str_of_num (listen_port l)) w,
               s, r)))"

text \<open>The whole script, lines 107 to 191.\<close>

definition main_001 :: "option_record \<Rightarrow> world \<Rightarrow> error + config" where
  "main_001 options w =
     (case createServer None w of (w1, app) \<Rightarrow>
        (case register_middleware (w1, app, options) of (w2, app2, options2) \<Rightarrow>
           startup_line (bind (emit OnSIGHUP w2, app2, options2))))"

text \<open>The handler registered at line 174: \<^verbatim>\<open>app.close()\<close>.\<close>

definition sighup_001 :: "config \<Rightarrow> config" where
  "sighup_001 c = (case c of (w, app, r) \<Rightarrow>
     (case close (w, app) of (w', app') \<Rightarrow> (w', app', r)))"

subsection \<open>\<^verbatim>\<open>002_https.js\<close>\<close>

definition options_002 :: "string \<Rightarrow> option_record list" where
  "options_002 dirname =
     [\<lparr>name = Some ''standard http server'', key_path = None, cert_path = None,
       listen = Some \<lparr>listen_port = Some 10101, listen_host = None\<rparr>,
       static = Some \<lparr>static_path = Some (dirname @ ''/static''),
                      static_options = Some \<lparr>maxAge = Some 3600000\<rparr>\<rparr>,
       logger = Some \<lparr>logger_path = Some (dirname @ ''/002a_https.log''),
                      logger_mode = Some octal_0666, logger_stream = None\<rparr>,
       favicon = Some \<lparr>favicon_path = None\<rparr>,
       directory = None\<rparr>,
      \<lparr>name = Some ''secure https server'',
       key_path = Some (dirname @ ''/resources/ssl_server.key''),
       cert_path = Some (dirname @ ''/resources/ssl_server.crt''),
       listen = Some \<lparr>listen_port = Some 10102, listen_host = None\<rparr>,
       static = Some \<lparr>static_path = Some (dirname @ ''/static''),
                      static_options = Some \<lparr>maxAge = Some 3600000\<rparr>\<rparr>,
       logger = Some \<lparr>logger_path = Some (dirname @ ''/002b_https.log''),
                      logger_mode = Some octal_0666, logger_stream = None\<rparr>,
       favicon = Some \<lparr>favicon_path = Some (dirname @ ''/resources/nodify_favicon.ico'')\<rparr>,
       directory = None\<rparr>]"

text \<open>The script's variables: \<^verbatim>\<open>options\<close>, \<^verbatim>\<open>apps\<close>, and the world.\<close>

record script =
  env :: world
  options :: "option_record list"
  apps :: "server list"

text \<open>Lines 98 to 105: the server object for one record.\<close>

definition create_for :: "option_record \<Rightarrow> world \<Rightarrow> error + world \<times> server" where
  "create_for r w =
     (if truthy_str (key_path r) \<and> truthy_str (cert_path r) then
        (case readFileSync (the (key_path r)) w of
           Inl e \<Rightarrow> Inl e
         | Inr (w1, k) \<Rightarrow>
             (case readFileSync (the (cert_path r)) w1 of
                Inl e \<Rightarrow> Inl e
              | Inr (w2, c) \<Rightarrow> Inr (createServer (Some (k, c)) w2)))
      else Inr (createServer None w))"

text \<open>
  Lines 87 to 131, first the body of the loop, then the loop. \<^verbatim>\<open>options[i]\<close>
  beyond the array is undefined, and reading a property of it throws; the loop
  is only ever run with \<open>il\<close> the array's length.
\<close>

definition construct_body :: "nat \<Rightarrow> script \<Rightarrow> error + script" where
  "construct_body i st =
     (if i < length (options st) then
        (case create_for (options st ! i) (env st) of
           Inl e \<Rightarrow> Inl e
         | Inr (w1, current) \<Rightarrow>
             (case register_middleware (w1, current, options st ! i) of
                (w2, current2, r2) \<Rightarrow>
                  Inr (st\<lparr>env := w2, options := (options st)[i := r2],
                          apps := apps st @ [current2]\<rparr>)))
      else Inl (TypeError ''options[i] is undefined''))"

function construct_loop :: "nat \<Rightarrow> nat \<Rightarrow> script \<Rightarrow> error + script" where
  "construct_loop i il st =
     (if i < il then
        (case construct_body i st of
           Inl e \<Rightarrow> Inl e
         | Inr st1 \<Rightarrow> construct_loop (Suc i) il st1)
      else Inr st)"
  by pat_completeness auto
termination
  by (relation "measure (\<lambda>(i, il, st). il - i)") auto

text \<open>
  Lines 133 to 137, the SIGHUP handler. The loop condition is \<^verbatim>\<open>i > il\<close>. Were the
  body ever entered, \<open>i\<close> would exceed \<^verbatim>\<open>apps.length\<close> and \<^verbatim>\<open>apps[i].close()\<close>
  would throw on undefined.
\<close>

definition sighup_body :: "nat \<Rightarrow> script \<Rightarrow> error + script" where
  "sighup_body i st =
     (if i < length (apps st) then
        (case close (env st, apps st ! i) of
           (w, s) \<Rightarrow> Inr (st\<lparr>env := w, apps := (apps st)[i := s]\<rparr>))
      else Inl (TypeError ''apps[i] is undefined''))"

function sighup_loop :: "nat \<Rightarrow> nat \<Rightarrow> script \<Rightarrow> error + script" where
  "sighup_loop i il st =
     (if i > il then
        (case sighup_body i st of
           Inl e \<Rightarrow> Inl e
         | Inr st1 \<Rightarrow> sighup_loop (Suc i) il st1)
      else Inr st)"
  by pat_completeness auto
termination
  by (relation "measure (\<lambda>(i, il, st). length (apps st) - i)")
     (auto simp: sighup_body_def close_def split: if_splits prod.splits)

definition sighup_002 :: "script \<Rightarrow> error + script" where
  "sighup_002 st = sighup_loop 0 (length (apps st)) st"

text \<open>Lines 141 to 147, the listen loop: its body, then the loop.\<close>

definition listen_body :: "nat \<Rightarrow> script \<Rightarrow> error + script" where
  "listen_body i st =
     (if i < length (options st) then
        (case console_log (''staring server: '' @ str_of_str (name (options st ! i))) (env st) of
           w1 \<Rightarrow>
             (case listen (options st ! i) of
                None \<Rightarrow> Inr (st\<lparr>env := w1\<rparr>)
              | Some l \<Rightarrow>
                  if truthy_num (listen_port l) then
                    (if i < length (apps st) then
                       (case listen_on (listen_port l) (listen_host l) (w1, apps st ! i) of
                          (w2, s) \<Rightarrow> Inr (st\<lparr>env := w2, apps := (apps st)[i := s]\<rparr>))
                     else Inl (TypeError ''apps[i] is undefined''))
                  else Inr (st\<lparr>env := w1\<rparr>)))
      else Inl (TypeError ''options[i] is undefined''))"

function listen_loop :: "nat \<Rightarrow> nat \<Rightarrow> script \<Rightarrow> error + script" where
  "listen_loop i il st =
     (if i < il then
        (case listen_body i st of
           Inl e \<Rightarrow> Inl e
         | Inr st1 \<Rightarrow> listen_loop (Suc i) il st1)
      else Inr st)"
  by pat_completeness auto
termination
  by (relation "measure (\<lambda>(i, il, st). il - i)") auto

text \<open>The whole script, lines 84 to 147.\<close>

definition main_002 :: "option_record list \<Rightarrow> world \<Rightarrow> error + script" where
  "main_002 opts w =
     (case construct_loop 0 (length opts) \<lparr>env = w, options = opts, apps = []\<rparr> of
        Inl e \<Rightarrow> Inl e
      | Inr st1 \<Rightarrow>
          listen_loop 0 (length (apps st1)) (st1\<lparr>env := emit OnSIGHUP (env st1)\<rparr>))"

subsection \<open>Requests through a middleware stack\<close>

text \<open>
  Modelled from the spec: the request dispatcher and the responders belong to the
  framework and are not in the repository. Section 2 says a request is handed to
  middleware in registration order and the first middleware that fully handles
  it short-circuits the rest; section 4.3 says the favicon responder intercepts
  exactly the icon-request path, the access logger records every request that
  reaches it and passes it on, the static and directory responders handle what
  they find and let the rest fall through, and a request nobody handles gets the
  not-found answer. Whether the static or the directory responder finds
  something depends on the served directory tree; it is the parameter
  \<open>finds\<close>. The access log is the list of lines written, each with the
  logger options (and so the stream) it was written through.
\<close>

record request =
  req_method :: string
  req_url :: string

datatype answer = HandledBy middleware | NotFound

definition favicon_url :: string where
  "favicon_url = ''/favicon.ico''"

fun dispatch ::
  "(middleware \<Rightarrow> request \<Rightarrow> bool) \<Rightarrow> middleware list \<Rightarrow> request \<Rightarrow>
     (logger_opts \<times> request) list \<Rightarrow> answer \<times> (logger_opts \<times> request) list" where
  "dispatch finds [] q lg = (NotFound, lg)"
| "dispatch finds (Favicon p # ms) q lg =
     (if req_url q = favicon_url then (HandledBy (Favicon p), lg)
      else dispatch finds ms q lg)"
| "dispatch finds (Logger l # ms) q lg = dispatch finds ms q (lg @ [(l, q)])"
| "dispatch finds (Static root opts # ms) q lg =
     (if finds (Static root opts) q then (HandledBy (Static root opts), lg)
      else dispatch finds ms q lg)"
| "dispatch finds (Directory root opts # ms) q lg =
     (if finds (Directory root opts) q then (HandledBy (Directory root opts), lg)
      else dispatch finds ms q lg)"

subsection \<open>Vocabulary for the statements\<close>

text \<open>The four kinds of middleware, by the names of section 4.3 of the spec.\<close>

datatype stage = FaviconResponder | AccessLogger | StaticResponder | DirectoryResponder

fun stage_of :: "middleware \<Rightarrow> stage" where
  "stage_of (Favicon p) = FaviconResponder"
| "stage_of (Logger l) = AccessLogger"
| "stage_of (Static root opts) = StaticResponder"
| "stage_of (Directory root opts) = DirectoryResponder"

text \<open>Events of server construction, and the bind event.\<close>

fun constructs :: "event \<Rightarrow> bool" where
  "constructs (ReadFileSync p) = True"
| "constructs (CreateServer n cred) = True"
| "constructs (Use n m) = True"
| "constructs (CreateWriteStream strm) = True"
| "constructs e = False"

fun binds :: "event \<Rightarrow> bool" where
  "binds (Listen n p h) = True"
| "binds e = False"

fun creates :: "event \<Rightarrow> bool" where
  "creates (CreateServer n cred) = True"
| "creates e = False"

fun opens :: "event \<Rightarrow> bool" where
  "opens (CreateWriteStream strm) = True"
| "opens e = False"

text \<open>The port and host of every \<^verbatim>\<open>listen\<close> call made on the server \<open>n\<close>.\<close>

fun listens_of :: "nat \<Rightarrow> event list \<Rightarrow> (int option \<times> string option) list" where
  "listens_of n [] = []"
| "listens_of n (Listen m p h # es) =
     (if m = n then (p, h) # listens_of n es else listens_of n es)"
| "listens_of n (e # es) = listens_of n es"

text \<open>The middleware registered on the server \<open>n\<close>, in the order of the \<^verbatim>\<open>use\<close> calls.\<close>

fun uses_of :: "nat \<Rightarrow> event list \<Rightarrow> middleware list" where
  "uses_of n [] = []"
| "uses_of n (Use m mw # es) = (if m = n then mw # uses_of n es else uses_of n es)"
| "uses_of n (e # es) = uses_of n es"

text \<open>
  The guard \<^verbatim>\<open>options.listen && options.listen.port\<close> of both scripts, with the
  arguments the guarded \<^verbatim>\<open>listen\<close> call gets.
\<close>

definition wanted_bind :: "option_record \<Rightarrow> (int option \<times> string option) option" where
  "wanted_bind r =
     (case listen r of
        None \<Rightarrow> None
      | Some l \<Rightarrow> if truthy_num (listen_port l) then Some (listen_port l, listen_host l) else None)"

text \<open>The events a script added to the trace it started with.\<close>

definition added :: "world \<Rightarrow> world \<Rightarrow> event list" where
  "added w w' = drop (length (trace w)) (trace w')"

text \<open>A world in which both key files of \<^verbatim>\<open>002_https.js\<close> can be read.\<close>

definition world_002 :: "string \<Rightarrow> world" where
  "world_002 dirname =
     \<lparr>files = [dirname @ ''/resources/ssl_server.key'' \<mapsto> ''KEY'',
               dirname @ ''/resources/ssl_server.crt'' \<mapsto> ''CERT''],
      trace = [], servers = 0\<rparr>"

definition world_empty :: world where
  "world_empty = \<lparr>files = Map.empty, trace = [], servers = 0\<rparr>"

text \<open>An option record with none of the optional fields.\<close>

definition options_none :: option_record where
  "options_none =
     \<lparr>name = None, key_path = None, cert_path = None, listen = None, static = None,
      logger = None, favicon = None, directory = None\<rparr>"

section \<open>Properties\<close>

subsection \<open>Unfolding one iteration at a time\<close>

declare construct_loop.simps [simp del]
declare sighup_loop.simps [simp del]
declare listen_loop.simps [simp del]

lemma construct_loop_stop: "\<not> i < il \<Longrightarrow> construct_loop i il st = Inr st"
  by (subst construct_loop.simps) simp

lemma construct_loop_step:
  assumes "construct_loop i il st = Inr st'" and "i < il"
  shows "\<exists>st1. construct_body i st = Inr st1 \<and> construct_loop (Suc i) il st1 = Inr st'"
proof (cases "construct_body i st")
  case (Inl e)
  with assms show ?thesis by (subst (asm) construct_loop.simps) simp
next
  case (Inr st1)
  with assms show ?thesis by (subst (asm) construct_loop.simps) simp
qed

lemma listen_loop_stop: "\<not> i < il \<Longrightarrow> listen_loop i il st = Inr st"
  by (subst listen_loop.simps) simp

lemma listen_loop_step:
  assumes "listen_loop i il st = Inr st'" and "i < il"
  shows "\<exists>st1. listen_body i st = Inr st1 \<and> listen_loop (Suc i) il st1 = Inr st'"
proof (cases "listen_body i st")
  case (Inl e)
  with assms show ?thesis by (subst (asm) listen_loop.simps) simp
next
  case (Inr st1)
  with assms show ?thesis by (subst (asm) listen_loop.simps) simp
qed

subsection \<open>Middleware registration: what it changes and what it leaves\<close>

lemmas register_defs = register_middleware_def register_favicon_def register_logger_def
  register_static_def register_directory_def use_def emit_def createWriteStream_def

lemma register_middleware_frame:
  assumes "register_middleware (w, s, r) = (w', s', r')"
  shows "sid s' = sid s" and "tls s' = tls s" and "sock s' = sock s"
    and "files w' = files w" and "servers w' = servers w"
    and "listen r' = listen r" and "name r' = name r"
  using assms
  by (auto simp: register_defs split: option.splits if_splits)

lemma register_middleware_trace:
  assumes "register_middleware (w, s, r) = (w', s', r')"
  shows "\<exists>evs. trace w' = trace w @ evs \<and> (\<forall>e\<in>set evs. constructs e \<and> \<not> creates e \<and> \<not> binds e)"
  using assms
  by (auto simp: register_defs split: option.splits if_splits)

lemma register_middleware_stages:
  assumes "register_middleware (w, s, r) = (w', s', r')"
  shows "map stage_of (stack s') = map stage_of (stack s) @
     (case favicon r of None \<Rightarrow> [] | Some f \<Rightarrow> [FaviconResponder]) @
     (case logger r of None \<Rightarrow> [] | Some l \<Rightarrow> if truthy_str (logger_path l) then [AccessLogger] else []) @
     (case static r of None \<Rightarrow> [] | Some t \<Rightarrow> if truthy_str (static_path t) then [StaticResponder] else []) @
     (case directory r of None \<Rightarrow> [] | Some d \<Rightarrow> if truthy_str (directory_path d) then [DirectoryResponder] else [])"
  using assms
  by (auto simp: register_defs split: option.splits if_splits)

lemma register_middleware_favicon_first:
  assumes "register_middleware (w, s, r) = (w', s', r')" and "favicon r = Some f"
  shows "\<exists>rest. stack s' = stack s @ Favicon (favicon_path f) # rest"
  using assms
  by (auto simp: register_defs split: option.splits if_splits)

subsection \<open>One iteration of the construction loop\<close>

lemma create_for_props:
  assumes "create_for r w = Inr (w1, c)"
  shows "sid c = servers w" and "servers w1 = Suc (servers w)" and "stack c = []"
    and "sock c = Created" and "files w1 = files w"
    and "\<exists>evs. trace w1 = trace w @ evs \<and> (\<forall>e\<in>set evs. constructs e \<and> \<not> binds e)
           \<and> length (filter creates evs) = 1"
  using assms
  by (auto simp: create_for_def readFileSync_def createServer_def emit_def
           split: if_splits option.splits sum.splits)

lemma construct_body_Inr:
  assumes "construct_body i st = Inr st1"
  shows "\<exists>w1 c w2 c2 r2. i < length (options st)
           \<and> create_for (options st ! i) (env st) = Inr (w1, c)
           \<and> register_middleware (w1, c, options st ! i) = (w2, c2, r2)
           \<and> st1 = st\<lparr>env := w2, options := (options st)[i := r2], apps := apps st @ [c2]\<rparr>"
  using assms
  by (auto simp: construct_body_def split: if_splits sum.splits prod.splits)

lemma construct_body_world:
  assumes "construct_body i st = Inr st1"
  shows "servers (env st1) = Suc (servers (env st))" and "files (env st1) = files (env st)"
    and "\<exists>evs. trace (env st1) = trace (env st) @ evs
           \<and> (\<forall>e\<in>set evs. constructs e \<and> \<not> binds e) \<and> length (filter creates evs) = 1"
proof -
  from construct_body_Inr [OF assms] obtain w1 c w2 c2 r2 where
    cf: "create_for (options st ! i) (env st) = Inr (w1, c)" and
    rm: "register_middleware (w1, c, options st ! i) = (w2, c2, r2)" and
    st1: "st1 = st\<lparr>env := w2, options := (options st)[i := r2], apps := apps st @ [c2]\<rparr>"
    by blast
  show "servers (env st1) = Suc (servers (env st))"
    using create_for_props(2) [OF cf] register_middleware_frame(5) [OF rm] st1 by simp
  show "files (env st1) = files (env st)"
    using create_for_props(5) [OF cf] register_middleware_frame(4) [OF rm] st1 by simp
  from create_for_props(6) [OF cf] obtain evs1 where
    e1: "trace w1 = trace (env st) @ evs1" "\<forall>e\<in>set evs1. constructs e \<and> \<not> binds e"
        "length (filter creates evs1) = 1" by blast
  from register_middleware_trace [OF rm] obtain evs2 where
    e2: "trace w2 = trace w1 @ evs2" "\<forall>e\<in>set evs2. constructs e \<and> \<not> creates e \<and> \<not> binds e"
    by blast
  have "filter creates evs2 = []" using e2(2) by (simp add: filter_empty_conv)
  then have "trace (env st1) = trace (env st) @ (evs1 @ evs2)
      \<and> (\<forall>e\<in>set (evs1 @ evs2). constructs e \<and> \<not> binds e)
      \<and> length (filter creates (evs1 @ evs2)) = 1"
    using e1 e2 st1 by auto
  then show "\<exists>evs. trace (env st1) = trace (env st) @ evs
           \<and> (\<forall>e\<in>set evs. constructs e \<and> \<not> binds e) \<and> length (filter creates evs) = 1"
    by blast
qed

lemma construct_body_options:
  assumes "construct_body i st = Inr st1"
  shows "length (options st1) = length (options st)"
    and "k \<noteq> i \<Longrightarrow> options st1 ! k = options st ! k"
    and "listen (options st1 ! k) = listen (options st ! k)"
    and "name (options st1 ! k) = name (options st ! k)"
proof -
  from construct_body_Inr [OF assms] obtain w1 c w2 c2 r2 where
    i: "i < length (options st)" and
    rm: "register_middleware (w1, c, options st ! i) = (w2, c2, r2)" and
    st1: "st1 = st\<lparr>env := w2, options := (options st)[i := r2], apps := apps st @ [c2]\<rparr>"
    by blast
  show "length (options st1) = length (options st)" using st1 by simp
  show "k \<noteq> i \<Longrightarrow> options st1 ! k = options st ! k" using st1 by simp
  show "listen (options st1 ! k) = listen (options st ! k)"
    using st1 i register_middleware_frame(6) [OF rm] by (cases "k = i") simp_all
  show "name (options st1 ! k) = name (options st ! k)"
    using st1 i register_middleware_frame(7) [OF rm] by (cases "k = i") simp_all
qed

lemma construct_body_apps:
  assumes "construct_body i st = Inr st1"
  shows "\<exists>w1 c w2 c2 r2. create_for (options st ! i) (env st) = Inr (w1, c)
           \<and> register_middleware (w1, c, options st ! i) = (w2, c2, r2)
           \<and> apps st1 = apps st @ [c2] \<and> sid c2 = servers (env st) \<and> sock c2 = Created"
proof -
  from construct_body_Inr [OF assms] obtain w1 c w2 c2 r2 where
    cf: "create_for (options st ! i) (env st) = Inr (w1, c)" and
    rm: "register_middleware (w1, c, options st ! i) = (w2, c2, r2)" and
    st1: "st1 = st\<lparr>env := w2, options := (options st)[i := r2], apps := apps st @ [c2]\<rparr>"
    by blast
  have "sid c2 = servers (env st)" "sock c2 = Created"
    using create_for_props(1,4) [OF cf] register_middleware_frame(1,3) [OF rm] by simp_all
  with cf rm st1 show ?thesis by auto
qed

subsection \<open>The construction loop\<close>

lemma construct_loop_world:
  "construct_loop i il st = Inr st' \<Longrightarrow>
     servers (env st') = servers (env st) + (il - i) \<and> files (env st') = files (env st) \<and>
     (\<exists>evs. trace (env st') = trace (env st) @ evs
        \<and> (\<forall>e\<in>set evs. constructs e \<and> \<not> binds e) \<and> length (filter creates evs) = il - i)"
proof (induction "il - i" arbitrary: i st)
  case 0
  then have "st' = st" using construct_loop_stop [of i il st] by simp
  with 0 show ?case by simp
next
  case (Suc n)
  then have lt: "i < il" and n: "n = il - Suc i" by simp_all
  from construct_loop_step [OF Suc.prems lt] obtain st1 where
    body: "construct_body i st = Inr st1" and rest: "construct_loop (Suc i) il st1 = Inr st'"
    by blast
  from construct_body_world(3) [OF body] obtain evs1 where
    e1: "trace (env st1) = trace (env st) @ evs1" "\<forall>e\<in>set evs1. constructs e \<and> \<not> binds e"
        "length (filter creates evs1) = 1" by blast
  from Suc.hyps(1) [OF n rest] obtain evs2 where
    s2: "servers (env st') = servers (env st1) + (il - Suc i)" "files (env st') = files (env st1)" and
    e2: "trace (env st') = trace (env st1) @ evs2" "\<forall>e\<in>set evs2. constructs e \<and> \<not> binds e"
        "length (filter creates evs2) = il - Suc i" by blast
  have "trace (env st') = trace (env st) @ (evs1 @ evs2)
      \<and> (\<forall>e\<in>set (evs1 @ evs2). constructs e \<and> \<not> binds e)
      \<and> length (filter creates (evs1 @ evs2)) = il - i"
    using e1 e2 lt by auto
  then have "\<exists>evs. trace (env st') = trace (env st) @ evs
        \<and> (\<forall>e\<in>set evs. constructs e \<and> \<not> binds e) \<and> length (filter creates evs) = il - i"
    by blast
  moreover have "servers (env st') = servers (env st) + (il - i)"
    using s2(1) construct_body_world(1) [OF body] lt by simp
  moreover have "files (env st') = files (env st)"
    using s2(2) construct_body_world(2) [OF body] by simp
  ultimately show ?case by blast
qed

lemma construct_loop_options:
  "construct_loop i il st = Inr st' \<Longrightarrow>
     length (options st') = length (options st) \<and>
     (\<forall>k. listen (options st' ! k) = listen (options st ! k)
        \<and> name (options st' ! k) = name (options st ! k))"
proof (induction "il - i" arbitrary: i st)
  case 0
  then have "st' = st" using construct_loop_stop [of i il st] by simp
  then show ?case by simp
next
  case (Suc n)
  then have lt: "i < il" and n: "n = il - Suc i" by simp_all
  from construct_loop_step [OF Suc.prems lt] obtain st1 where
    body: "construct_body i st = Inr st1" and rest: "construct_loop (Suc i) il st1 = Inr st'"
    by blast
  show ?case
    using Suc.hyps(1) [OF n rest] construct_body_options(1,3,4) [OF body] by simp
qed

lemma construct_loop_apps:
  "construct_loop i il st = Inr st' \<Longrightarrow>
     \<exists>new. apps st' = apps st @ new \<and> length new = il - i \<and>
       (\<forall>j<il - i. sid (new ! j) = servers (env st) + j \<and> sock (new ! j) = Created \<and>
          (\<exists>w w1 c w2 r2. create_for (options st ! (i + j)) w = Inr (w1, c)
             \<and> register_middleware (w1, c, options st ! (i + j)) = (w2, new ! j, r2)))"
proof (induction "il - i" arbitrary: i st)
  case 0
  then have "st' = st" using construct_loop_stop [of i il st] by simp
  with 0 show ?case by simp
next
  case (Suc n)
  then have lt: "i < il" and n: "n = il - Suc i" by simp_all
  from construct_loop_step [OF Suc.prems lt] obtain st1 where
    body: "construct_body i st = Inr st1" and rest: "construct_loop (Suc i) il st1 = Inr st'"
    by blast
  from construct_body_apps [OF body] obtain w1 c w2 c2 r2 where
    cf: "create_for (options st ! i) (env st) = Inr (w1, c)" and
    rm: "register_middleware (w1, c, options st ! i) = (w2, c2, r2)" and
    a1: "apps st1 = apps st @ [c2]" and c2: "sid c2 = servers (env st)" "sock c2 = Created"
    by blast
  from Suc.hyps(1) [OF n rest] obtain new where
    a2: "apps st' = apps st1 @ new" and len: "length new = il - Suc i" and
    each: "\<forall>j<il - Suc i. sid (new ! j) = servers (env st1) + j \<and> sock (new ! j) = Created \<and>
          (\<exists>w w1 c w2 r2. create_for (options st1 ! (Suc i + j)) w = Inr (w1, c)
             \<and> register_middleware (w1, c, options st1 ! (Suc i + j)) = (w2, new ! j, r2))"
    by blast
  have "apps st' = apps st @ (c2 # new)" using a1 a2 by simp
  moreover have "length (c2 # new) = il - i" using len lt by simp
  moreover have "\<forall>j<il - i. sid ((c2 # new) ! j) = servers (env st) + j
        \<and> sock ((c2 # new) ! j) = Created \<and>
          (\<exists>w w1 c w2 r2. create_for (options st ! (i + j)) w = Inr (w1, c)
             \<and> register_middleware (w1, c, options st ! (i + j)) = (w2, (c2 # new) ! j, r2))"
  proof (intro allI impI)
    fix j assume j: "j < il - i"
    show "sid ((c2 # new) ! j) = servers (env st) + j
        \<and> sock ((c2 # new) ! j) = Created \<and>
          (\<exists>w w1 c w2 r2. create_for (options st ! (i + j)) w = Inr (w1, c)
             \<and> register_middleware (w1, c, options st ! (i + j)) = (w2, (c2 # new) ! j, r2))"
    proof (cases j)
      case 0
      have "\<exists>w w1 c w2 r2. create_for (options st ! i) w = Inr (w1, c)
             \<and> register_middleware (w1, c, options st ! i) = (w2, c2, r2)"
        using cf rm by blast
      with 0 c2 show ?thesis by simp
    next
      case (Suc j')
      then have j': "j' < il - Suc i" using j by simp
      have same: "options st1 ! (Suc i + j') = options st ! (i + j)"
        using construct_body_options(2) [OF body, of "Suc i + j'"] Suc by simp
      from each j' have
        "sid (new ! j') = servers (env st1) + j' \<and> sock (new ! j') = Created \<and>
          (\<exists>w w1 c w2 r2. create_for (options st1 ! (Suc i + j')) w = Inr (w1, c)
             \<and> register_middleware (w1, c, options st1 ! (Suc i + j')) = (w2, new ! j', r2))"
        by blast
      then show ?thesis
        using Suc same construct_body_world(1) [OF body] by simp
    qed
  qed
  ultimately show ?case by blast
qed

subsection \<open>The listen loop\<close>

lemma listens_of_append: "listens_of n (xs @ ys) = listens_of n xs @ listens_of n ys"
  by (induction n xs rule: listens_of.induct) simp_all

lemma listen_body_Inr:
  assumes "listen_body i st = Inr st1"
  shows "i < length (options st)" and "options st1 = options st"
    and "case wanted_bind (options st ! i) of
           None \<Rightarrow> apps st1 = apps st \<and>
             trace (env st1) = trace (env st) @
               [ConsoleLog (''staring server: '' @ str_of_str (name (options st ! i)))]
         | Some (p, h) \<Rightarrow> i < length (apps st) \<and>
             apps st1 = (apps st)[i := (apps st ! i)\<lparr>sock := Listening p h\<rparr>] \<and>
             trace (env st1) = trace (env st) @
               [ConsoleLog (''staring server: '' @ str_of_str (name (options st ! i))),
                Listen (sid (apps st ! i)) p h]"
  using assms
  by (auto simp: listen_body_def wanted_bind_def console_log_def listen_on_def emit_def
           split: if_splits option.splits)

lemma listen_body_sids:
  assumes "listen_body i st = Inr st1"
  shows "map sid (apps st1) = map sid (apps st)"
proof (cases "wanted_bind (options st ! i)")
  case None
  with listen_body_Inr(3) [OF assms] show ?thesis by simp
next
  case (Some ph)
  with listen_body_Inr(3) [OF assms] show ?thesis
    by (cases ph) (simp add: map_update list_update_same_conv)
qed

lemma listen_loop_apps:
  "listen_loop i il st = Inr st' \<Longrightarrow>
     options st' = options st \<and> length (apps st') = length (apps st) \<and>
     (\<forall>k<length (apps st). apps st' ! k =
        (if i \<le> k \<and> k < il then
           (case wanted_bind (options st ! k) of
              None \<Rightarrow> apps st ! k
            | Some (p, h) \<Rightarrow> (apps st ! k)\<lparr>sock := Listening p h\<rparr>)
         else apps st ! k))"
proof (induction "il - i" arbitrary: i st)
  case 0
  then have "st' = st" and "\<not> i < il" using listen_loop_stop [of i il st] by simp_all
  then show ?case by auto
next
  case (Suc n)
  then have lt: "i < il" and n: "n = il - Suc i" by simp_all
  from listen_loop_step [OF Suc.prems lt] obtain st1 where
    body: "listen_body i st = Inr st1" and rest: "listen_loop (Suc i) il st1 = Inr st'"
    by blast
  note b = listen_body_Inr [OF body]
  note ih = Suc.hyps(1) [OF n rest]
  have len1: "length (apps st1) = length (apps st)"
    using listen_body_sids [OF body] by (metis length_map)
  have "\<forall>k<length (apps st). apps st' ! k =
        (if i \<le> k \<and> k < il then
           (case wanted_bind (options st ! k) of
              None \<Rightarrow> apps st ! k
            | Some (p, h) \<Rightarrow> (apps st ! k)\<lparr>sock := Listening p h\<rparr>)
         else apps st ! k)"
  proof (intro allI impI)
    fix k assume k: "k < length (apps st)"
    show "apps st' ! k =
        (if i \<le> k \<and> k < il then
           (case wanted_bind (options st ! k) of
              None \<Rightarrow> apps st ! k
            | Some (p, h) \<Rightarrow> (apps st ! k)\<lparr>sock := Listening p h\<rparr>)
         else apps st ! k)"
    proof (cases "k = i")
      case True
      then have "apps st' ! k = apps st1 ! i" using ih k len1 by simp
      also have "apps st1 ! i =
           (case wanted_bind (options st ! i) of
              None \<Rightarrow> apps st ! i
            | Some (p, h) \<Rightarrow> (apps st ! i)\<lparr>sock := Listening p h\<rparr>)"
        using b(3) by (auto split: option.splits)
      finally show ?thesis using True lt by (auto split: option.splits)
    next
      case False
      have "apps st1 ! k = apps st ! k"
        using b(3) False by (auto split: option.splits)
      then show ?thesis using ih k len1 False b(2) by (auto cong: option.case_cong)
    qed
  qed
  then show ?case using ih b(2) len1 by simp
qed

lemma listen_loop_trace:
  "listen_loop i il st = Inr st' \<Longrightarrow> distinct (map sid (apps st)) \<Longrightarrow>
     \<exists>evs. trace (env st') = trace (env st) @ evs \<and> (\<forall>e\<in>set evs. \<not> constructs e) \<and>
       (\<forall>k<length (apps st). listens_of (sid (apps st ! k)) evs =
          (if i \<le> k \<and> k < il then
             (case wanted_bind (options st ! k) of None \<Rightarrow> [] | Some ph \<Rightarrow> [ph])
           else []))"
proof (induction "il - i" arbitrary: i st)
  case 0
  then have "st' = st" and "\<not> i < il" using listen_loop_stop [of i il st] by simp_all
  then show ?case by auto
next
  case (Suc n)
  then have lt: "i < il" and n: "n = il - Suc i" by simp_all
  from listen_loop_step [OF Suc.prems(1) lt] obtain st1 where
    body: "listen_body i st = Inr st1" and rest: "listen_loop (Suc i) il st1 = Inr st'"
    by blast
  note b = listen_body_Inr [OF body]
  have sids: "map sid (apps st1) = map sid (apps st)" by (rule listen_body_sids [OF body])
  then have len1: "length (apps st1) = length (apps st)" by (metis length_map)
  have sid1: "sid (apps st1 ! k) = sid (apps st ! k)" if "k < length (apps st)" for k
    using sids that len1 by (metis nth_map)
  have d1: "distinct (map sid (apps st1))" using Suc.prems(2) sids by simp
  from Suc.hyps(1) [OF n rest d1] obtain evs2 where
    t2: "trace (env st') = trace (env st1) @ evs2" and c2: "\<forall>e\<in>set evs2. \<not> constructs e" and
    l2: "\<forall>k<length (apps st1). listens_of (sid (apps st1 ! k)) evs2 =
          (if Suc i \<le> k \<and> k < il then
             (case wanted_bind (options st1 ! k) of None \<Rightarrow> [] | Some ph \<Rightarrow> [ph])
           else [])"
    by blast
  obtain evs1 where
    t1: "trace (env st1) = trace (env st) @ evs1" and c1: "\<forall>e\<in>set evs1. \<not> constructs e" and
    l1: "\<forall>k<length (apps st). listens_of (sid (apps st ! k)) evs1 =
          (if k = i then
             (case wanted_bind (options st ! k) of None \<Rightarrow> [] | Some ph \<Rightarrow> [ph])
           else [])"
  proof (cases "wanted_bind (options st ! i)")
    case None
    with b(3) have "trace (env st1) = trace (env st) @
               [ConsoleLog (''staring server: '' @ str_of_str (name (options st ! i)))]"
      by simp
    with None that show ?thesis by auto
  next
    case (Some ph)
    obtain p h where ph: "ph = (p, h)" by (cases ph)
    with Some b(3) have i: "i < length (apps st)" and
      tr: "trace (env st1) = trace (env st) @
               [ConsoleLog (''staring server: '' @ str_of_str (name (options st ! i))),
                Listen (sid (apps st ! i)) p h]"
      by simp_all
    have "sid (apps st ! i) = sid (apps st ! k) \<longleftrightarrow> i = k" if "k < length (apps st)" for k
      using Suc.prems(2) i that by (metis distinct_conv_nth length_map nth_map)
    then have "\<forall>k<length (apps st).
        listens_of (sid (apps st ! k))
          [ConsoleLog (''staring server: '' @ str_of_str (name (options st ! i))),
           Listen (sid (apps st ! i)) p h] =
          (if k = i then
             (case wanted_bind (options st ! k) of None \<Rightarrow> [] | Some ph \<Rightarrow> [ph])
           else [])"
      using Some ph by auto
    with tr that show ?thesis by auto
  qed
  have "trace (env st') = trace (env st) @ (evs1 @ evs2)" using t1 t2 by simp
  moreover have "\<forall>e\<in>set (evs1 @ evs2). \<not> constructs e" using c1 c2 by auto
  moreover have "\<forall>k<length (apps st). listens_of (sid (apps st ! k)) (evs1 @ evs2) =
          (if i \<le> k \<and> k < il then
             (case wanted_bind (options st ! k) of None \<Rightarrow> [] | Some ph \<Rightarrow> [ph])
           else [])"
  proof (intro allI impI)
    fix k assume k: "k < length (apps st)"
    have "listens_of (sid (apps st ! k)) evs2 =
          (if Suc i \<le> k \<and> k < il then
             (case wanted_bind (options st ! k) of None \<Rightarrow> [] | Some ph \<Rightarrow> [ph])
           else [])"
      using l2 [rule_format, of k] k len1 sid1 [OF k] b(2) by simp
    moreover have "listens_of (sid (apps st ! k)) evs1 =
          (if k = i then
             (case wanted_bind (options st ! k) of None \<Rightarrow> [] | Some ph \<Rightarrow> [ph])
           else [])"
      using l1 k by simp
    ultimately show "listens_of (sid (apps st ! k)) (evs1 @ evs2) =
          (if i \<le> k \<and> k < il then
             (case wanted_bind (options st ! k) of None \<Rightarrow> [] | Some ph \<Rightarrow> [ph])
           else [])"
      using lt by (auto simp: listens_of_append)
  qed
  ultimately show ?case by blast
qed

subsection \<open>The whole of \<^verbatim>\<open>002_https.js\<close>\<close>



lemma main_002_Inr:
  assumes "main_002 opts w = Inr st"
  shows "\<exists>st1. construct_loop 0 (length opts) \<lparr>env = w, options = opts, apps = []\<rparr> = Inr st1 \<and>
           listen_loop 0 (length (apps st1)) (st1\<lparr>env := emit OnSIGHUP (env st1)\<rparr>) = Inr st"
  using assms by (auto simp: main_002_def split: sum.splits)



lemma main_002_shipped:
  "case main_002 (options_002 ''/srv'') (world_002 ''/srv'') of
     Inl e \<Rightarrow> False
   | Inr st \<Rightarrow> map sid (apps st) = [0, 1]"
  by code_simp

subsection \<open>The calls one registration makes\<close>

lemma register_middleware_added:
  assumes "register_middleware (w, s, r) = (w', s', r')"
  shows "added w w' =
     (case favicon r of None \<Rightarrow> [] | Some f \<Rightarrow> [Use (sid s) (Favicon (favicon_path f))]) @
     (case logger r of None \<Rightarrow> []
      | Some l \<Rightarrow>
          if truthy_str (logger_path l) then
            [CreateWriteStream \<lparr>ws_path = the (logger_path l), ws_flags = ''w'',
               ws_encoding = ''utf-8'', ws_mode = or_num (logger_mode l) octal_0644\<rparr>,
             Use (sid s) (Logger (l\<lparr>logger_stream := Some
               \<lparr>ws_path = the (logger_path l), ws_flags = ''w'',
                ws_encoding = ''utf-8'', ws_mode = or_num (logger_mode l) octal_0644\<rparr>\<rparr>))]
          else []) @
     (case static r of None \<Rightarrow> []
      | Some t \<Rightarrow>
          if truthy_str (static_path t)
          then [Use (sid s) (Static (the (static_path t)) (static_options t))] else []) @
     (case directory r of None \<Rightarrow> []
      | Some d \<Rightarrow>
          if truthy_str (directory_path d)
          then [Use (sid s) (Directory (the (directory_path d)) d)] else [])"
  using assms
  by (auto simp: register_defs added_def split: option.splits if_splits)

subsection \<open>How the scripts can fail\<close>

lemma construct_loop_Inl:
  assumes "construct_loop i il st = Inl e"
  shows "i < il \<and> (construct_body i st = Inl e \<or>
     (\<exists>st1. construct_body i st = Inr st1 \<and> construct_loop (Suc i) il st1 = Inl e))"
proof (cases "i < il")
  case True
  show ?thesis
  proof (cases "construct_body i st")
    case (Inl e')
    with assms True show ?thesis by (subst (asm) construct_loop.simps) simp
  next
    case (Inr st1)
    with assms True show ?thesis by (subst (asm) construct_loop.simps) simp
  qed
next
  case False
  with assms show ?thesis by (simp add: construct_loop_stop)
qed

lemma listen_loop_Inl:
  assumes "listen_loop i il st = Inl e"
  shows "i < il \<and> (listen_body i st = Inl e \<or>
     (\<exists>st1. listen_body i st = Inr st1 \<and> listen_loop (Suc i) il st1 = Inl e))"
proof (cases "i < il")
  case True
  show ?thesis
  proof (cases "listen_body i st")
    case (Inl e')
    with assms True show ?thesis by (subst (asm) listen_loop.simps) simp
  next
    case (Inr st1)
    with assms True show ?thesis by (subst (asm) listen_loop.simps) simp
  qed
next
  case False
  with assms show ?thesis by (simp add: listen_loop_stop)
qed

lemma create_for_Inl:
  assumes "create_for r w = Inl e"
  shows "\<exists>p. e = ENOENT p \<and> files w p = None"
  using assms
  by (auto simp: create_for_def readFileSync_def emit_def
           split: if_splits option.splits sum.splits)

lemma construct_body_Inl:
  assumes "construct_body i st = Inl e" and "i < length (options st)"
  shows "\<exists>p. e = ENOENT p \<and> files (env st) p = None"
proof (cases "create_for (options st ! i) (env st)")
  case (Inl e')
  with assms have "e' = e" by (simp add: construct_body_def)
  with Inl show ?thesis by (simp add: create_for_Inl)
next
  case (Inr x)
  with assms show ?thesis by (simp add: construct_body_def split: prod.splits)
qed

lemma construct_loop_fails_on_file_only:
  "construct_loop i il st = Inl e \<Longrightarrow> il \<le> length (options st) \<Longrightarrow>
     \<exists>p. e = ENOENT p \<and> files (env st) p = None"
proof (induction "il - i" arbitrary: i st)
  case 0
  then show ?case using construct_loop_Inl [of i il st e] by simp
next
  case (Suc n)
  then have n: "n = il - Suc i" by simp
  from construct_loop_Inl [OF Suc.prems(1)] have lt: "i < il" and
    alt: "construct_body i st = Inl e \<or>
     (\<exists>st1. construct_body i st = Inr st1 \<and> construct_loop (Suc i) il st1 = Inl e)"
    by simp_all
  from alt show ?case
  proof
    assume "construct_body i st = Inl e"
    then show ?thesis using construct_body_Inl lt Suc.prems(2) by simp
  next
    assume "\<exists>st1. construct_body i st = Inr st1 \<and> construct_loop (Suc i) il st1 = Inl e"
    then obtain st1 where
      body: "construct_body i st = Inr st1" and rest: "construct_loop (Suc i) il st1 = Inl e"
      by blast
    have "il \<le> length (options st1)"
      using construct_body_options(1) [OF body] Suc.prems(2) by simp
    from Suc.hyps(1) [OF n rest this] show ?thesis
      using construct_body_world(2) [OF body] by simp
  qed
qed

lemma listen_body_never_fails:
  assumes "i < length (options st)" and "i < length (apps st)"
  shows "listen_body i st \<noteq> Inl e"
  using assms by (auto simp: listen_body_def listen_on_def split: option.splits)

lemma listen_loop_never_fails:
  "il \<le> length (options st) \<Longrightarrow> il \<le> length (apps st) \<Longrightarrow> listen_loop i il st \<noteq> Inl e"
proof (induction "il - i" arbitrary: i st)
  case 0
  then show ?case using listen_loop_stop [of i il st] by simp
next
  case (Suc n)
  then have n: "n = il - Suc i" and lt: "i < il" by simp_all
  show ?case
  proof
    assume f: "listen_loop i il st = Inl e"
    from listen_loop_Inl [OF f] have
      "listen_body i st = Inl e \<or>
        (\<exists>st1. listen_body i st = Inr st1 \<and> listen_loop (Suc i) il st1 = Inl e)"
      by simp
    then show False
    proof
      assume "listen_body i st = Inl e"
      then show False using listen_body_never_fails [of i st e] lt Suc.prems by simp
    next
      assume "\<exists>st1. listen_body i st = Inr st1 \<and> listen_loop (Suc i) il st1 = Inl e"
      then obtain st1 where
        body: "listen_body i st = Inr st1" and rest: "listen_loop (Suc i) il st1 = Inl e"
        by blast
      have "length (apps st1) = length (apps st)"
        using listen_body_sids [OF body] by (metis length_map)
      then have "il \<le> length (options st1)" "il \<le> length (apps st1)"
        using listen_body_Inr(2) [OF body] Suc.prems by simp_all
      from Suc.hyps(1) [OF n this] rest show False by simp
    qed
  qed
qed

lemma main_002_fails_on_file_only:
  assumes "main_002 opts w = Inl e"
  shows "\<exists>p. e = ENOENT p \<and> files w p = None"
proof (cases "construct_loop 0 (length opts) \<lparr>env = w, options = opts, apps = []\<rparr>")
  case (Inl e')
  with assms have "e' = e" by (simp add: main_002_def)
  with Inl construct_loop_fails_on_file_only [of 0 "length opts" "\<lparr>env = w, options = opts, apps = []\<rparr>" e]
  show ?thesis by simp
next
  case (Inr st1)
  have "length (options st1) = length opts"
    using construct_loop_options [OF Inr] by simp
  moreover have "length (apps st1) = length opts"
    using construct_loop_apps [OF Inr] by auto
  ultimately have "listen_loop 0 (length (apps st1)) (st1\<lparr>env := emit OnSIGHUP (env st1)\<rparr>) \<noteq> Inl e"
    by (intro listen_loop_never_fails) simp_all
  with assms Inr show ?thesis by (simp add: main_002_def)
qed

lemma main_002_no_key_file:
  "main_002 (options_002 ''/srv'') world_empty = Inl (ENOENT ''/srv/resources/ssl_server.key'')"
proof -
  have "case main_002 (options_002 ''/srv'') world_empty of
          Inl e \<Rightarrow> e = ENOENT ''/srv/resources/ssl_server.key''
        | Inr st \<Rightarrow> False"
    by code_simp
  then show ?thesis
    by (cases "main_002 (options_002 ''/srv'') world_empty") simp_all
qed

lemma main_001_listen_absent:
  assumes "listen r = None"
  shows "main_001 r w = Inl (TypeError ''options.listen is undefined'')"
proof -
  obtain w1 app where c: "createServer None w = (w1, app)" by (cases "createServer None w")
  obtain w2 app2 r2 where m: "register_middleware (w1, app, r) = (w2, app2, r2)"
    by (metis prod_cases3)
  have "listen r2 = None" using register_middleware_frame(6) [OF m] assms by simp
  then show ?thesis using c m
    by (simp add: main_001_def bind_def startup_line_def)
qed

lemma main_001_listen_present:
  assumes "listen r = Some l"
  shows "\<exists>w' app r'. main_001 r w = Inr (w', app, r') \<and>
     last (trace w') = ConsoleLog (''listening for requests on port '' @ str_of_num (listen_port l)) \<and>
     sock app = (if truthy_num (listen_port l) then Listening (listen_port l) (listen_host l)
                 else Created)"
proof -
  obtain w1 app where c: "createServer None w = (w1, app)" by (cases "createServer None w")
  obtain w2 app2 r2 where m: "register_middleware (w1, app, r) = (w2, app2, r2)"
    by (metis prod_cases3)
  have l: "listen r2 = Some l" using register_middleware_frame(6) [OF m] assms by simp
  have "sock app = Created" using c by (auto simp: createServer_def)
  then have s: "sock app2 = Created" using register_middleware_frame(3) [OF m] by simp
  show ?thesis using c m l s
    by (simp add: main_001_def bind_def startup_line_def listen_on_def console_log_def emit_def)
qed

subsection \<open>The middleware each server has when the handler is installed\<close>

lemma uses_of_append: "uses_of n (xs @ ys) = uses_of n xs @ uses_of n ys"
  by (induction n xs rule: uses_of.induct) simp_all

lemma added_eq: "trace w' = trace w @ evs \<Longrightarrow> added w w' = evs"
  by (simp add: added_def)

lemma register_middleware_uses:
  assumes "register_middleware (w, s, r) = (w', s', r')"
  shows "stack s' = stack s @ uses_of (sid s) (added w w')"
    and "n \<noteq> sid s \<Longrightarrow> uses_of n (added w w') = []"
  using assms
  by (auto simp: register_defs added_def split: option.splits if_splits)

lemma create_for_uses:
  assumes "create_for r w = Inr (w1, c)"
  shows "uses_of n (added w w1) = []"
  using assms
  by (auto simp: create_for_def readFileSync_def createServer_def emit_def added_def
           split: if_splits option.splits sum.splits)

lemma construct_body_uses:
  assumes "construct_body i st = Inr st1"
  shows "\<exists>c2. apps st1 = apps st @ [c2] \<and>
           uses_of (servers (env st)) (added (env st) (env st1)) = stack c2 \<and>
           (\<forall>n. n \<noteq> servers (env st) \<longrightarrow> uses_of n (added (env st) (env st1)) = [])"
proof -
  from construct_body_Inr [OF assms] obtain w1 c w2 c2 r2 where
    cf: "create_for (options st ! i) (env st) = Inr (w1, c)" and
    rm: "register_middleware (w1, c, options st ! i) = (w2, c2, r2)" and
    st1: "st1 = st\<lparr>env := w2, options := (options st)[i := r2], apps := apps st @ [c2]\<rparr>"
    by blast
  from create_for_props(6) [OF cf] obtain e1 where e1: "trace w1 = trace (env st) @ e1"
    by blast
  from register_middleware_trace [OF rm] obtain e2 where e2: "trace w2 = trace w1 @ e2"
    by blast
  have a1: "added (env st) w1 = e1" using e1 by (rule added_eq)
  have a2: "added w1 w2 = e2" using e2 by (rule added_eq)
  have a: "added (env st) (env st1) = e1 @ e2"
    using e1 e2 st1 by (simp add: added_def)
  have u1: "uses_of n e1 = []" for n
    using create_for_uses [OF cf, of n] a1 by simp
  have sc: "sid c = servers (env st)" "stack c = []"
    using create_for_props(1,3) [OF cf] by simp_all
  have "stack c2 = uses_of (servers (env st)) e2"
    using register_middleware_uses(1) [OF rm] a2 sc by simp
  moreover have "uses_of n e2 = []" if "n \<noteq> servers (env st)" for n
    using register_middleware_uses(2) [OF rm, of n] a2 sc that by simp
  ultimately have "uses_of (servers (env st)) (added (env st) (env st1)) = stack c2"
    and "\<forall>n. n \<noteq> servers (env st) \<longrightarrow> uses_of n (added (env st) (env st1)) = []"
    using a u1 by (simp_all add: uses_of_append)
  moreover have "apps st1 = apps st @ [c2]" using st1 by simp
  ultimately show ?thesis by blast
qed

lemma construct_loop_uses:
  "construct_loop i il st = Inr st' \<Longrightarrow>
     \<exists>new. apps st' = apps st @ new \<and> length new = il - i \<and>
       (\<forall>n<servers (env st). uses_of n (added (env st) (env st')) = []) \<and>
       (\<forall>j<il - i. uses_of (servers (env st) + j) (added (env st) (env st')) = stack (new ! j))"
proof (induction "il - i" arbitrary: i st)
  case 0
  then have "st' = st" using construct_loop_stop [of i il st] by simp
  with 0 show ?case by (simp add: added_def)
next
  case (Suc n)
  then have lt: "i < il" and n: "n = il - Suc i" by simp_all
  from construct_loop_step [OF Suc.prems lt] obtain st1 where
    body: "construct_body i st = Inr st1" and rest: "construct_loop (Suc i) il st1 = Inr st'"
    by blast
  from construct_body_uses [OF body] obtain c2 where
    a1: "apps st1 = apps st @ [c2]" and
    u1: "uses_of (servers (env st)) (added (env st) (env st1)) = stack c2" and
    z1: "\<forall>n. n \<noteq> servers (env st) \<longrightarrow> uses_of n (added (env st) (env st1)) = []"
    by blast
  from Suc.hyps(1) [OF n rest] obtain new where
    a2: "apps st' = apps st1 @ new" and len: "length new = il - Suc i" and
    z2: "\<forall>n<servers (env st1). uses_of n (added (env st1) (env st')) = []" and
    u2: "\<forall>j<il - Suc i. uses_of (servers (env st1) + j) (added (env st1) (env st')) = stack (new ! j)"
    by blast
  have sv: "servers (env st1) = Suc (servers (env st))"
    by (rule construct_body_world(1) [OF body])
  from construct_body_world(3) [OF body] obtain e1 where
    e1: "trace (env st1) = trace (env st) @ e1" by blast
  from construct_loop_world [OF rest] obtain e2 where
    e2: "trace (env st') = trace (env st1) @ e2" by blast
  have split: "added (env st) (env st') = added (env st) (env st1) @ added (env st1) (env st')"
    using e1 e2 by (simp add: added_def)
  have "apps st' = apps st @ (c2 # new)" using a1 a2 by simp
  moreover have "length (c2 # new) = il - i" using len lt by simp
  moreover have "\<forall>n<servers (env st). uses_of n (added (env st) (env st')) = []"
    using z1 z2 sv by (simp add: split uses_of_append)
  moreover have "\<forall>j<il - i. uses_of (servers (env st) + j) (added (env st) (env st')) =
      stack ((c2 # new) ! j)"
  proof (intro allI impI)
    fix j assume j: "j < il - i"
    show "uses_of (servers (env st) + j) (added (env st) (env st')) = stack ((c2 # new) ! j)"
    proof (cases j)
      case 0
      have "uses_of (servers (env st)) (added (env st1) (env st')) = []"
        using z2 sv by simp
      with 0 u1 show ?thesis by (simp add: split uses_of_append)
    next
      case (Suc j')
      then have j': "j' < il - Suc i" using j by simp
      have "uses_of (servers (env st) + j) (added (env st) (env st1)) = []"
        using z1 Suc by simp
      moreover have "uses_of (servers (env st) + j) (added (env st1) (env st')) = stack (new ! j')"
        using u2 j' sv Suc by simp
      ultimately show ?thesis using Suc by (simp add: split uses_of_append)
    qed
  qed
  ultimately show ?case by blast
qed

lemma main_002_phases:
  assumes "main_002 opts w = Inr st"
  obtains pre post where
    "added w (env st) = pre @ [OnSIGHUP] @ post"
    "\<forall>e\<in>set pre. constructs e \<and> \<not> binds e"
    "length (filter creates pre) = length opts"
    "\<forall>e\<in>set post. \<not> constructs e"
    "\<forall>i<length opts. uses_of (sid (apps st ! i)) pre = stack (apps st ! i) \<and>
       map stage_of (stack (apps st ! i)) =
         (case favicon (opts ! i) of None \<Rightarrow> [] | Some f \<Rightarrow> [FaviconResponder]) @
         (case logger (opts ! i) of None \<Rightarrow> []
          | Some l \<Rightarrow> if truthy_str (logger_path l) then [AccessLogger] else []) @
         (case static (opts ! i) of None \<Rightarrow> []
          | Some t \<Rightarrow> if truthy_str (static_path t) then [StaticResponder] else []) @
         (case directory (opts ! i) of None \<Rightarrow> []
          | Some d \<Rightarrow> if truthy_str (directory_path d) then [DirectoryResponder] else [])"
proof -
  let ?st0 = "\<lparr>env = w, options = opts, apps = []\<rparr>"
  from main_002_Inr [OF assms] obtain st1 where
    c: "construct_loop 0 (length opts) ?st0 = Inr st1" and
    l: "listen_loop 0 (length (apps st1)) (st1\<lparr>env := emit OnSIGHUP (env st1)\<rparr>) = Inr st"
    by blast
  let ?st2 = "st1\<lparr>env := emit OnSIGHUP (env st1)\<rparr>"
  from construct_loop_world [OF c] obtain evs1 where
    t1: "trace (env st1) = trace w @ evs1" and
    c1: "\<forall>e\<in>set evs1. constructs e \<and> \<not> binds e" and
    n1: "length (filter creates evs1) = length opts"
    by auto
  have ad1: "added w (env st1) = evs1" using t1 by (rule added_eq)
  from construct_loop_apps [OF c] have
    len1: "length (apps st1) = length opts" and
    each1: "\<forall>k<length opts. sid (apps st1 ! k) = servers w + k \<and> sock (apps st1 ! k) = Created \<and>
          (\<exists>w0 w1 c w2 r2. create_for (opts ! k) w0 = Inr (w1, c)
             \<and> register_middleware (w1, c, opts ! k) = (w2, apps st1 ! k, r2))"
    by auto
  from construct_loop_uses [OF c] have
    u1: "\<forall>k<length opts. uses_of (servers w + k) evs1 = stack (apps st1 ! k)"
    using ad1 by auto
  have "\<forall>i<length opts. \<forall>j<length opts. i \<noteq> j \<longrightarrow> sid (apps st1 ! i) \<noteq> sid (apps st1 ! j)"
    using each1 by simp
  then have d: "distinct (map sid (apps ?st2))"
    using len1 by (simp add: distinct_conv_nth)
  from listen_loop_apps [OF l] have
    each2: "\<forall>k<length opts. sid (apps st ! k) = sid (apps st1 ! k) \<and>
        stack (apps st ! k) = stack (apps st1 ! k)"
    using len1 by (auto split: option.splits)
  from listen_loop_trace [OF l d] obtain evs2 where
    t2: "trace (env st) = trace (env ?st2) @ evs2" and
    c2: "\<forall>e\<in>set evs2. \<not> constructs e"
    by blast
  have a: "added w (env st) = evs1 @ [OnSIGHUP] @ evs2"
    using t1 t2 by (simp add: added_def emit_def)
  have per: "\<forall>i<length opts. uses_of (sid (apps st ! i)) evs1 = stack (apps st ! i) \<and>
       map stage_of (stack (apps st ! i)) =
         (case favicon (opts ! i) of None \<Rightarrow> [] | Some f \<Rightarrow> [FaviconResponder]) @
         (case logger (opts ! i) of None \<Rightarrow> []
          | Some l \<Rightarrow> if truthy_str (logger_path l) then [AccessLogger] else []) @
         (case static (opts ! i) of None \<Rightarrow> []
          | Some t \<Rightarrow> if truthy_str (static_path t) then [StaticResponder] else []) @
         (case directory (opts ! i) of None \<Rightarrow> []
          | Some d \<Rightarrow> if truthy_str (directory_path d) then [DirectoryResponder] else [])"
  proof (intro allI impI)
    fix i assume i: "i < length opts"
    from each1 i obtain w0 w1 c0 w2 r2 where
      sd: "sid (apps st1 ! i) = servers w + i" and
      cf: "create_for (opts ! i) w0 = Inr (w1, c0)" and
      rm: "register_middleware (w1, c0, opts ! i) = (w2, apps st1 ! i, r2)"
      by blast
    from each2 i have same: "sid (apps st ! i) = sid (apps st1 ! i)"
      "stack (apps st ! i) = stack (apps st1 ! i)" by simp_all
    have "uses_of (sid (apps st ! i)) evs1 = stack (apps st ! i)"
      using u1 i sd same by simp
    moreover have "map stage_of (stack (apps st ! i)) =
         (case favicon (opts ! i) of None \<Rightarrow> [] | Some f \<Rightarrow> [FaviconResponder]) @
         (case logger (opts ! i) of None \<Rightarrow> []
          | Some l \<Rightarrow> if truthy_str (logger_path l) then [AccessLogger] else []) @
         (case static (opts ! i) of None \<Rightarrow> []
          | Some t \<Rightarrow> if truthy_str (static_path t) then [StaticResponder] else []) @
         (case directory (opts ! i) of None \<Rightarrow> []
          | Some d \<Rightarrow> if truthy_str (directory_path d) then [DirectoryResponder] else [])"
      using register_middleware_stages [OF rm] create_for_props(3) [OF cf] same(2) by simp
    ultimately show "uses_of (sid (apps st ! i)) evs1 = stack (apps st ! i) \<and>
       map stage_of (stack (apps st ! i)) =
         (case favicon (opts ! i) of None \<Rightarrow> [] | Some f \<Rightarrow> [FaviconResponder]) @
         (case logger (opts ! i) of None \<Rightarrow> []
          | Some l \<Rightarrow> if truthy_str (logger_path l) then [AccessLogger] else []) @
         (case static (opts ! i) of None \<Rightarrow> []
          | Some t \<Rightarrow> if truthy_str (static_path t) then [StaticResponder] else []) @
         (case directory (opts ! i) of None \<Rightarrow> []
          | Some d \<Rightarrow> if truthy_str (directory_path d) then [DirectoryResponder] else [])"
      by (rule conjI)
  qed
  show thesis by (rule that [OF a c1 n1 c2 per])
qed

section \<open>The claims\<close>

subsection \<open>C1: the hang-up signal\<close>

text \<open>
  The handler of \<^verbatim>\<open>001_static.js\<close> closes its one server. The handler of
  \<^verbatim>\<open>002_https.js\<close> runs a loop whose condition \<^verbatim>\<open>i > il\<close> is false at
  \<open>i = 0\<close>, so it returns at once whatever \<^verbatim>\<open>apps\<close> holds.
\<close>

lemma sighup_002_unchanged: "sighup_002 st = Inr st"
  unfolding sighup_002_def by (subst sighup_loop.simps) simp

lemma sighup_001_closes:
  assumes "sighup_001 (w, app, r) = (w', app', r')" and "sock app = Listening p h"
  shows "sock app' = Closed" and "added w w' = [Close (sid app)]"
  using assms by (auto simp: sighup_001_def close_def emit_def added_def)

text \<open>
  Claim C1 says that the hang-up signal closes the listening socket of every
  tracked server, and that in \<^verbatim>\<open>002_https.js\<close> the handler calls \<^verbatim>\<open>close()\<close> on
  each server of \<^verbatim>\<open>apps\<close>. Evaluated on the options the script ships with, in a
  world where both key files exist: start-up leaves both servers listening, and
  after the handler has run both are still listening and no call at all, so no
  \<^verbatim>\<open>close()\<close>, has been made.
\<close>

theorem sighup_002_closes_nothing:
  "case main_002 (options_002 ''/srv'') (world_002 ''/srv'') of
     Inl e \<Rightarrow> False
   | Inr st \<Rightarrow>
       map sock (apps st) = [Listening (Some 10101) None, Listening (Some 10102) None] \<and>
       (case sighup_002 st of
          Inl e \<Rightarrow> False
        | Inr st' \<Rightarrow>
            map sock (apps st') = [Listening (Some 10101) None, Listening (Some 10102) None] \<and>
            added (env st) (env st') = [])"
  by code_simp

subsection \<open>C2: encrypted or plaintext server\<close>

text \<open>
  Claim C2: for every option record, the server constructed at lines 98 to 105
  of \<^verbatim>\<open>002_https.js\<close> is an encrypted listener if and only if both the key path
  and the certificate path are present. When either is absent a plaintext
  server is constructed, by \<^verbatim>\<open>createServer\<close> with no credentials, and nothing
  can go wrong. When both are present and both files can be read, they are read,
  key first, and the server is constructed with their contents as credentials;
  when one cannot be read the constructor throws and there is no server.
  Present is what the script's test \<^verbatim>\<open>key_path && cert_path\<close> asks of a string:
  defined and not empty.
\<close>

theorem tls_iff_both_paths:
  "(create_for r w = Inr (w', s) \<longrightarrow>
     (tls s \<noteq> None \<longleftrightarrow> truthy_str (key_path r) \<and> truthy_str (cert_path r)) \<and>
     (truthy_str (key_path r) \<and> truthy_str (cert_path r) \<longrightarrow>
        (\<exists>k c. files w (the (key_path r)) = Some k \<and> files w (the (cert_path r)) = Some c \<and>
           tls s = Some (k, c) \<and>
           added w w' = [ReadFileSync (the (key_path r)), ReadFileSync (the (cert_path r)),
                         CreateServer (sid s) (Some (k, c))])) \<and>
     (\<not> (truthy_str (key_path r) \<and> truthy_str (cert_path r)) \<longrightarrow>
        tls s = None \<and> added w w' = [CreateServer (sid s) None])) \<and>
   (\<not> (truthy_str (key_path r) \<and> truthy_str (cert_path r)) \<longrightarrow>
      create_for r w = Inr (createServer None w)) \<and>
   (truthy_str (key_path r) \<and> truthy_str (cert_path r) \<longrightarrow>
      (\<forall>k c. files w (the (key_path r)) = Some k \<and> files w (the (cert_path r)) = Some c \<longrightarrow>
         create_for r w =
           Inr (createServer (Some (k, c))
                  (emit (ReadFileSync (the (cert_path r)))
                     (emit (ReadFileSync (the (key_path r))) w)))) \<and>
      (files w (the (key_path r)) = None \<longrightarrow>
         create_for r w = Inl (ENOENT (the (key_path r)))) \<and>
      (files w (the (key_path r)) \<noteq> None \<and> files w (the (cert_path r)) = None \<longrightarrow>
         create_for r w = Inl (ENOENT (the (cert_path r)))))"
proof (intro conjI impI allI)
  assume c: "create_for r w = Inr (w', s)"
  then show "tls s \<noteq> None \<longleftrightarrow> truthy_str (key_path r) \<and> truthy_str (cert_path r)"
    by (auto simp: create_for_def readFileSync_def createServer_def emit_def
             split: if_splits option.splits sum.splits)
  show "\<exists>k c. files w (the (key_path r)) = Some k \<and> files w (the (cert_path r)) = Some c \<and>
           tls s = Some (k, c) \<and>
           added w w' = [ReadFileSync (the (key_path r)), ReadFileSync (the (cert_path r)),
                         CreateServer (sid s) (Some (k, c))]"
    if "truthy_str (key_path r) \<and> truthy_str (cert_path r)"
    using c that
    by (auto simp: create_for_def readFileSync_def createServer_def emit_def added_def
             split: if_splits option.splits sum.splits)
  show "tls s = None" if "\<not> (truthy_str (key_path r) \<and> truthy_str (cert_path r))"
    using c that by (auto simp: create_for_def createServer_def emit_def split: if_splits)
  show "added w w' = [CreateServer (sid s) None]"
    if "\<not> (truthy_str (key_path r) \<and> truthy_str (cert_path r))"
    using c that by (auto simp: create_for_def createServer_def emit_def added_def split: if_splits)
next
  show "create_for r w = Inr (createServer None w)"
    if "\<not> (truthy_str (key_path r) \<and> truthy_str (cert_path r))"
    using that by (auto simp: create_for_def)
  show "create_for r w =
           Inr (createServer (Some (k, c))
                  (emit (ReadFileSync (the (cert_path r)))
                     (emit (ReadFileSync (the (key_path r))) w)))"
    if "truthy_str (key_path r) \<and> truthy_str (cert_path r)"
      and "files w (the (key_path r)) = Some k \<and> files w (the (cert_path r)) = Some c" for k c
    using that by (simp add: create_for_def readFileSync_def emit_def)
  show "create_for r w = Inl (ENOENT (the (key_path r)))"
    if "truthy_str (key_path r) \<and> truthy_str (cert_path r)" and "files w (the (key_path r)) = None"
    using that by (simp add: create_for_def readFileSync_def)
  show "create_for r w = Inl (ENOENT (the (cert_path r)))"
    if "truthy_str (key_path r) \<and> truthy_str (cert_path r)"
      and "files w (the (key_path r)) \<noteq> None \<and> files w (the (cert_path r)) = None"
    using that by (auto simp: create_for_def readFileSync_def emit_def)
qed


theorem tls_iff_both_paths_witness:
  "create_for (options_002 ''/srv'' ! 0) (world_002 ''/srv'') =
     Inr (createServer None (world_002 ''/srv'')) \<and>
   tls (snd (createServer None (world_002 ''/srv''))) = None \<and>
   create_for (options_002 ''/srv'' ! 1) (world_002 ''/srv'') =
     Inr (createServer (Some (''KEY'', ''CERT''))
            (emit (ReadFileSync ''/srv/resources/ssl_server.crt'')
               (emit (ReadFileSync ''/srv/resources/ssl_server.key'') (world_002 ''/srv'')))) \<and>
   tls (snd (createServer (Some (''KEY'', ''CERT''))
            (emit (ReadFileSync ''/srv/resources/ssl_server.crt'')
               (emit (ReadFileSync ''/srv/resources/ssl_server.key'') (world_002 ''/srv''))))) =
     Some (''KEY'', ''CERT'')"
proof -
  have plain: "\<not> (truthy_str (key_path (options_002 ''/srv'' ! 0)) \<and>
      truthy_str (cert_path (options_002 ''/srv'' ! 0)))"
    by (simp add: options_002_def truthy_str_def)
  have both: "truthy_str (key_path (options_002 ''/srv'' ! 1)) \<and>
      truthy_str (cert_path (options_002 ''/srv'' ! 1))"
    by (simp add: options_002_def truthy_str_def)
  have fs: "files (world_002 ''/srv'') (the (key_path (options_002 ''/srv'' ! 1))) = Some ''KEY'' \<and>
      files (world_002 ''/srv'') (the (cert_path (options_002 ''/srv'' ! 1))) = Some ''CERT''"
    by (simp add: options_002_def world_002_def)
  note t0 = tls_iff_both_paths [where r = "options_002 ''/srv'' ! 0" and w = "world_002 ''/srv''"
      and w' = "fst (createServer None (world_002 ''/srv''))"
      and s = "snd (createServer None (world_002 ''/srv''))"]
  note t1 = tls_iff_both_paths [where r = "options_002 ''/srv'' ! 1" and w = "world_002 ''/srv''"]
  from t0 plain have a: "create_for (options_002 ''/srv'' ! 0) (world_002 ''/srv'') =
     Inr (createServer None (world_002 ''/srv''))"
    by blast
  then have "create_for (options_002 ''/srv'' ! 0) (world_002 ''/srv'') =
     Inr (fst (createServer None (world_002 ''/srv'')), snd (createServer None (world_002 ''/srv'')))"
    by simp
  with t0 plain have b: "tls (snd (createServer None (world_002 ''/srv''))) = None"
    by blast
  from t1 both fs have "create_for (options_002 ''/srv'' ! 1) (world_002 ''/srv'') =
     Inr (createServer (Some (''KEY'', ''CERT''))
            (emit (ReadFileSync (the (cert_path (options_002 ''/srv'' ! 1))))
               (emit (ReadFileSync (the (key_path (options_002 ''/srv'' ! 1)))) (world_002 ''/srv''))))"
    by blast
  then have c: "create_for (options_002 ''/srv'' ! 1) (world_002 ''/srv'') =
     Inr (createServer (Some (''KEY'', ''CERT''))
            (emit (ReadFileSync ''/srv/resources/ssl_server.crt'')
               (emit (ReadFileSync ''/srv/resources/ssl_server.key'') (world_002 ''/srv''))))"
    by (simp add: options_002_def)
  have d: "tls (snd (createServer (Some (''KEY'', ''CERT''))
            (emit (ReadFileSync ''/srv/resources/ssl_server.crt'')
               (emit (ReadFileSync ''/srv/resources/ssl_server.key'') (world_002 ''/srv''))))) =
     Some (''KEY'', ''CERT'')"
    by (simp add: createServer_def)
  from a b c d show ?thesis by - (rule conjI | assumption)+
qed

subsection \<open>C3: favicon requests and the access log\<close>

text \<open>
  Whatever precedes the first logger in a stack either answers the request or
  passes it on unlogged.
\<close>

lemma dispatch_before_logger:
  assumes "\<forall>m\<in>set pre. stage_of m \<noteq> AccessLogger"
  shows "snd (dispatch finds (pre @ ms) q lg) = lg \<or>
         dispatch finds (pre @ ms) q lg = dispatch finds ms q lg"
  using assms
proof (induction pre)
  case Nil
  then show ?case by simp
next
  case (Cons m pre)
  then show ?case by (cases m) auto
qed

lemma favicon_ahead_of_logger:
  assumes "\<forall>m\<in>set pre. stage_of m \<noteq> AccessLogger" and "req_url q = favicon_url"
  shows "snd (dispatch finds (pre @ Favicon p # rest) q lg) = lg"
  using dispatch_before_logger [OF assms(1), of finds "Favicon p # rest" q lg] assms(2)
  by auto

text \<open>
  Claim C3: a request for the favicon path, on a server the scripts configured
  from a record with a \<^verbatim>\<open>favicon\<close> field, is answered by the favicon responder
  and writes nothing to the access log. The scripts register the favicon
  responder first on a server fresh from \<^verbatim>\<open>createServer\<close>, so it is ahead of the
  logger whenever it is registered at all.
\<close>

theorem favicon_request_not_logged:
  assumes "register_middleware (w, s, r) = (w', s', r')" and "stack s = []"
    and "favicon r = Some f" and "req_url q = favicon_url"
  shows "dispatch finds (stack s') q lg = (HandledBy (Favicon (favicon_path f)), lg)"
proof -
  from register_middleware_favicon_first [OF assms(1,3)] assms(2)
  obtain rest where "stack s' = Favicon (favicon_path f) # rest" by auto
  with assms(4) show ?thesis by simp
qed

theorem favicon_request_not_logged_witness:
  "\<exists>w' s' r'. register_middleware (fst (createServer None world_empty),
       snd (createServer None world_empty), options_001 ''/srv'') = (w', s', r') \<and>
     AccessLogger \<in> set (map stage_of (stack s')) \<and>
     dispatch (\<lambda>m q. True) (stack s') \<lparr>req_method = ''GET'', req_url = ''/favicon.ico''\<rparr> []
       = (HandledBy (Favicon None), [])"
proof -
  obtain w' s' r' where
    reg: "register_middleware (fst (createServer None world_empty),
       snd (createServer None world_empty), options_001 ''/srv'') = (w', s', r')"
    by (metis prod_cases3)
  have fresh: "stack (snd (createServer None world_empty)) = []"
    by (simp add: createServer_def)
  have fav: "favicon (options_001 ''/srv'') = Some \<lparr>favicon_path = None\<rparr>"
    by (simp add: options_001_def)
  have url: "req_url \<lparr>req_method = ''GET'', req_url = ''/favicon.ico''\<rparr> = favicon_url"
    by (simp add: favicon_url_def)
  have "AccessLogger \<in> set (map stage_of (stack s'))"
    using register_middleware_stages [OF reg] fresh
    by (simp add: options_001_def truthy_str_def)
  moreover have "dispatch (\<lambda>m q. True) (stack s') \<lparr>req_method = ''GET'', req_url = ''/favicon.ico''\<rparr> []
       = (HandledBy (Favicon None), [])"
    using favicon_request_not_logged [OF reg fresh fav url] by simp
  ultimately show ?thesis using reg by blast
qed

subsection \<open>C4: the order of the middleware\<close>

text \<open>
  Claim C4 says that each of the four registrations happens if and only if the
  corresponding field of the option record is present. That is so for
  \<^verbatim>\<open>favicon\<close> only: the other three guards also ask for the field's \<^verbatim>\<open>path\<close>.
  With \<^verbatim>\<open>static: {}\<close> the field is present and no static responder is
  registered.
\<close>

theorem registration_iff_field_counterexample:
  "static ((options_001 ''/srv'')\<lparr>static := Some \<lparr>static_path = None, static_options = None\<rparr>\<rparr>) \<noteq> None \<and>
   StaticResponder \<notin> set (map stage_of (stack (fst (snd (register_middleware
      (fst (createServer None world_empty), snd (createServer None world_empty),
       (options_001 ''/srv'')\<lparr>static := Some \<lparr>static_path = None, static_options = None\<rparr>\<rparr>))))))"
  by (simp add: options_001_def register_defs register_defs createServer_def world_empty_def
        truthy_str_def)

text \<open>
  Claim C4 as amended: on a fresh server the registered middleware is, in this
  order, the favicon responder if the \<^verbatim>\<open>favicon\<close> field is present, the access
  logger if the \<^verbatim>\<open>logger\<close> field is present and has a non-empty path, the static
  responder if the \<^verbatim>\<open>static\<close> field is present and has a non-empty path, the
  directory responder if the \<^verbatim>\<open>directory\<close> field is present and has a non-empty
  path; nothing else is registered.
\<close>

theorem middleware_fixed_order:
  assumes "register_middleware (w, s, r) = (w', s', r')" and "stack s = []"
  shows "map stage_of (stack s') =
     (case favicon r of None \<Rightarrow> [] | Some f \<Rightarrow> [FaviconResponder]) @
     (case logger r of None \<Rightarrow> []
      | Some l \<Rightarrow> if truthy_str (logger_path l) then [AccessLogger] else []) @
     (case static r of None \<Rightarrow> []
      | Some t \<Rightarrow> if truthy_str (static_path t) then [StaticResponder] else []) @
     (case directory r of None \<Rightarrow> []
      | Some d \<Rightarrow> if truthy_str (directory_path d) then [DirectoryResponder] else [])"
  using register_middleware_stages [OF assms(1)] assms(2) by simp

theorem middleware_fixed_order_witness:
  "\<exists>w' s' r'. register_middleware (fst (createServer None world_empty),
       snd (createServer None world_empty), options_001 ''/srv'') = (w', s', r') \<and>
     map stage_of (stack s') =
       [FaviconResponder, AccessLogger, StaticResponder, DirectoryResponder]"
proof -
  obtain w' s' r' where
    reg: "register_middleware (fst (createServer None world_empty),
       snd (createServer None world_empty), options_001 ''/srv'') = (w', s', r')"
    by (metis prod_cases3)
  have fresh: "stack (snd (createServer None world_empty)) = []"
    by (simp add: createServer_def)
  have "map stage_of (stack s') =
       [FaviconResponder, AccessLogger, StaticResponder, DirectoryResponder]"
    using middleware_fixed_order [OF reg fresh]
    by (simp add: options_001_def truthy_str_def)
  with reg show ?thesis by - (rule exI conjI | assumption)+
qed

subsection \<open>C5: one server per record\<close>



subsection \<open>C6: the log stream\<close>

text \<open>
  Claim C6: for a record whose \<^verbatim>\<open>logger\<close> field has a (non-empty) path, the
  registration opens a write stream exactly once, on that path and with flags
  \<^verbatim>\<open>'w'\<close>, the mode in which the runtime creates the file or discards what it
  holds, and the very next call registers the logger with the options that now
  carry that stream. Both scripts run the registration once per record at
  start-up, so the file is truncated at every start.
\<close>

theorem log_stream_opened_before_logger:
  assumes "register_middleware (w, s, r) = (w', s', r')"
    and "logger r = Some l" and "truthy_str (logger_path l)"
  shows "\<exists>pre post strm.
     added w w' = pre @ [CreateWriteStream strm,
                         Use (sid s) (Logger (l\<lparr>logger_stream := Some strm\<rparr>))] @ post \<and>
     ws_path strm = the (logger_path l) \<and> ws_flags strm = ''w'' \<and>
     (\<forall>e\<in>set (pre @ post). \<not> opens e \<and> (\<forall>n l'. e \<noteq> Use n (Logger l')))"
proof -
  let ?pre = "case favicon r of None \<Rightarrow> [] | Some f \<Rightarrow> [Use (sid s) (Favicon (favicon_path f))]"
  let ?post = "(case static r of None \<Rightarrow> []
      | Some t \<Rightarrow>
          if truthy_str (static_path t)
          then [Use (sid s) (Static (the (static_path t)) (static_options t))] else []) @
     (case directory r of None \<Rightarrow> []
      | Some d \<Rightarrow>
          if truthy_str (directory_path d)
          then [Use (sid s) (Directory (the (directory_path d)) d)] else [])"
  let ?strm = "\<lparr>ws_path = the (logger_path l), ws_flags = ''w'',
               ws_encoding = ''utf-8'', ws_mode = or_num (logger_mode l) octal_0644\<rparr>"
  have a: "added w w' = ?pre @ [CreateWriteStream ?strm,
                         Use (sid s) (Logger (l\<lparr>logger_stream := Some ?strm\<rparr>))] @ ?post"
    using register_middleware_added [OF assms(1)] assms(2,3) by simp
  have b: "ws_path ?strm = the (logger_path l)" and c: "ws_flags ?strm = ''w''"
    by simp_all
  have d: "\<forall>e\<in>set (?pre @ ?post). \<not> opens e \<and> (\<forall>n l'. e \<noteq> Use n (Logger l'))"
    by (auto split: option.splits)
  from a b c d show ?thesis by - (rule exI conjI | assumption)+
qed

theorem log_stream_opened_before_logger_witness:
  "\<exists>w' s' r' pre post strm.
     register_middleware (fst (createServer None world_empty),
       snd (createServer None world_empty), options_001 ''/srv'') = (w', s', r') \<and>
     added (fst (createServer None world_empty)) w' =
       pre @ [CreateWriteStream strm,
              Use 0 (Logger \<lparr>logger_path = Some ''/srv/001_static.log'',
                               logger_mode = Some octal_0666,
                               logger_stream = Some strm\<rparr>)] @ post \<and>
     ws_path strm = ''/srv/001_static.log'' \<and> ws_flags strm = ''w''"
proof -
  obtain w' s' r' where
    reg: "register_middleware (fst (createServer None world_empty),
       snd (createServer None world_empty), options_001 ''/srv'') = (w', s', r')"
    by (metis prod_cases3)
  have lg: "logger (options_001 ''/srv'') =
      Some \<lparr>logger_path = Some ''/srv/001_static.log'', logger_mode = Some octal_0666,
            logger_stream = None\<rparr>"
    by (simp add: options_001_def)
  have tr: "truthy_str (logger_path \<lparr>logger_path = Some ''/srv/001_static.log'',
      logger_mode = Some octal_0666, logger_stream = None\<rparr>)"
    by (simp add: truthy_str_def)
  from log_stream_opened_before_logger [OF reg lg tr] obtain pre post strm where
    a: "added (fst (createServer None world_empty)) w' =
       pre @ [CreateWriteStream strm,
              Use (sid (snd (createServer None world_empty)))
                (Logger (\<lparr>logger_path = Some ''/srv/001_static.log'',
                   logger_mode = Some octal_0666, logger_stream = None\<rparr>
                   \<lparr>logger_stream := Some strm\<rparr>))] @ post" and
    b: "ws_path strm = the (logger_path \<lparr>logger_path = Some ''/srv/001_static.log'',
          logger_mode = Some octal_0666, logger_stream = None\<rparr>)" and
    c: "ws_flags strm = ''w''"
    by (elim exE conjE)
  from a have a': "added (fst (createServer None world_empty)) w' =
       pre @ [CreateWriteStream strm,
              Use 0 (Logger \<lparr>logger_path = Some ''/srv/001_static.log'',
                               logger_mode = Some octal_0666,
                               logger_stream = Some strm\<rparr>)] @ post"
    by (simp add: createServer_def world_empty_def)
  from b have b': "ws_path strm = ''/srv/001_static.log''" by simp
  from reg a' b' c show ?thesis by - (rule exI conjI | assumption)+
qed

subsection \<open>C7: absent optional fields\<close>

text \<open>
  Claim C7: when the \<^verbatim>\<open>favicon\<close>, \<^verbatim>\<open>logger\<close>, \<^verbatim>\<open>static\<close> or \<^verbatim>\<open>directory\<close>
  field is absent the corresponding registration does nothing, and when the
  \<^verbatim>\<open>listen\<close> field is absent the bind step of \<^verbatim>\<open>001_static.js\<close> does nothing
  and the one of \<^verbatim>\<open>002_https.js\<close> only prints its line; none of these steps
  can raise an error. No path is validated while the scripts configure:
  registration and binding do the same whatever the file system holds, and the
  only error that can stop \<^verbatim>\<open>002_https.js\<close> is a key or certificate file that
  cannot be read.
\<close>

theorem absent_fields_are_skipped:
  "(favicon r = None \<longrightarrow> register_favicon (w, s, r) = (w, s, r)) \<and>
   (logger r = None \<longrightarrow> register_logger (w, s, r) = (w, s, r)) \<and>
   (static r = None \<longrightarrow> register_static (w, s, r) = (w, s, r)) \<and>
   (directory r = None \<longrightarrow> register_directory (w, s, r) = (w, s, r)) \<and>
   (listen r = None \<longrightarrow> bind (w, s, r) = (w, s, r)) \<and>
   (i < length (options st) \<and> listen (options st ! i) = None \<longrightarrow>
      listen_body i st =
        Inr (st\<lparr>env := console_log (''staring server: '' @ str_of_str (name (options st ! i)))
                          (env st)\<rparr>)) \<and>
   register_middleware (w\<lparr>files := fs\<rparr>, s, r) =
     (case register_middleware (w, s, r) of (w', s', r') \<Rightarrow> (w'\<lparr>files := fs\<rparr>, s', r')) \<and>
   bind (w\<lparr>files := fs\<rparr>, s, r) =
     (case bind (w, s, r) of (w', s', r') \<Rightarrow> (w'\<lparr>files := fs\<rparr>, s', r')) \<and>
   (\<forall>e. main_002 opts w = Inl e \<longrightarrow> (\<exists>p. e = ENOENT p \<and> files w p = None))"
proof (intro conjI impI allI)
  show "register_middleware (w\<lparr>files := fs\<rparr>, s, r) =
     (case register_middleware (w, s, r) of (w', s', r') \<Rightarrow> (w'\<lparr>files := fs\<rparr>, s', r'))"
    by (auto simp: register_defs split: option.splits)
  show "bind (w\<lparr>files := fs\<rparr>, s, r) =
     (case bind (w, s, r) of (w', s', r') \<Rightarrow> (w'\<lparr>files := fs\<rparr>, s', r'))"
    by (auto simp: bind_def listen_on_def emit_def split: option.splits)
  show "\<exists>p. e = ENOENT p \<and> files w p = None" if "main_002 opts w = Inl e" for e
    using that by (rule main_002_fails_on_file_only)
  show "listen_body i st =
        Inr (st\<lparr>env := console_log (''staring server: '' @ str_of_str (name (options st ! i)))
                          (env st)\<rparr>)"
    if "i < length (options st) \<and> listen (options st ! i) = None"
    using that by (simp add: listen_body_def)
qed (simp_all add: register_favicon_def register_logger_def register_static_def
       register_directory_def bind_def)

theorem absent_fields_are_skipped_witness:
  "register_favicon (world_empty, snd (createServer None world_empty), options_none) =
     (world_empty, snd (createServer None world_empty), options_none) \<and>
   register_logger (world_empty, snd (createServer None world_empty), options_none) =
     (world_empty, snd (createServer None world_empty), options_none) \<and>
   register_static (world_empty, snd (createServer None world_empty), options_none) =
     (world_empty, snd (createServer None world_empty), options_none) \<and>
   register_directory (world_empty, snd (createServer None world_empty), options_none) =
     (world_empty, snd (createServer None world_empty), options_none) \<and>
   bind (world_empty, snd (createServer None world_empty), options_none) =
     (world_empty, snd (createServer None world_empty), options_none) \<and>
   listen_body 0 \<lparr>env = world_empty, options = [options_none],
                  apps = [snd (createServer None world_empty)]\<rparr> =
     Inr \<lparr>env = console_log ''staring server: undefined'' world_empty,
          options = [options_none], apps = [snd (createServer None world_empty)]\<rparr> \<and>
   (\<exists>p. main_002 (options_002 ''/srv'') world_empty = Inl (ENOENT p) \<and> files world_empty p = None)"
proof -
  note t = absent_fields_are_skipped [where r = options_none and w = world_empty
      and s = "snd (createServer None world_empty)" and i = 0
      and st = "\<lparr>env = world_empty, options = [options_none],
                  apps = [snd (createServer None world_empty)]\<rparr>"
      and opts = "options_002 ''/srv''"]
  have a: "favicon options_none = None" "logger options_none = None"
    "static options_none = None" "directory options_none = None" "listen options_none = None"
    by (simp_all add: options_none_def)
  have b: "0 < length (options \<lparr>env = world_empty, options = [options_none],
                  apps = [snd (createServer None world_empty)]\<rparr>) \<and>
     listen (options \<lparr>env = world_empty, options = [options_none],
                  apps = [snd (createServer None world_empty)]\<rparr> ! 0) = None"
    by (simp add: options_none_def)
  from t a(1) have 1: "register_favicon (world_empty, snd (createServer None world_empty), options_none) =
     (world_empty, snd (createServer None world_empty), options_none)" by blast
  from t a(2) have 2: "register_logger (world_empty, snd (createServer None world_empty), options_none) =
     (world_empty, snd (createServer None world_empty), options_none)" by blast
  from t a(3) have 3: "register_static (world_empty, snd (createServer None world_empty), options_none) =
     (world_empty, snd (createServer None world_empty), options_none)" by blast
  from t a(4) have 4: "register_directory (world_empty, snd (createServer None world_empty), options_none) =
     (world_empty, snd (createServer None world_empty), options_none)" by blast
  from t a(5) have 5: "bind (world_empty, snd (createServer None world_empty), options_none) =
     (world_empty, snd (createServer None world_empty), options_none)" by blast
  from t b have "listen_body 0 \<lparr>env = world_empty, options = [options_none],
                  apps = [snd (createServer None world_empty)]\<rparr> =
     Inr (\<lparr>env = world_empty, options = [options_none],
                  apps = [snd (createServer None world_empty)]\<rparr>
          \<lparr>env := console_log (''staring server: '' @ str_of_str (name (options \<lparr>env = world_empty, options = [options_none],
                  apps = [snd (createServer None world_empty)]\<rparr> ! 0)))
                          (env \<lparr>env = world_empty, options = [options_none],
                  apps = [snd (createServer None world_empty)]\<rparr>)\<rparr>)" by blast
  then have 6: "listen_body 0 \<lparr>env = world_empty, options = [options_none],
                  apps = [snd (createServer None world_empty)]\<rparr> =
     Inr \<lparr>env = console_log ''staring server: undefined'' world_empty,
          options = [options_none], apps = [snd (createServer None world_empty)]\<rparr>"
    by (simp add: options_none_def str_of_str_def)
  from t main_002_no_key_file have
    "\<exists>p. ENOENT ''/srv/resources/ssl_server.key'' = ENOENT p \<and> files world_empty p = None"
    by blast
  then have 7: "\<exists>p. main_002 (options_002 ''/srv'') world_empty = Inl (ENOENT p) \<and>
      files world_empty p = None"
    using main_002_no_key_file by auto
  from 1 2 3 4 5 6 7 show ?thesis by - (rule conjI | assumption)+
qed

subsection \<open>C8: the mode of the log file\<close>

text \<open>
  Claim C8: for a record whose \<^verbatim>\<open>logger\<close> field has a (non-empty) path, the
  one stream that is opened gets mode 0644 (octal, 420) when the \<^verbatim>\<open>mode\<close>
  field is absent or zero, and the \<^verbatim>\<open>mode\<close> field's value otherwise.
\<close>

theorem log_stream_mode:
  assumes "register_middleware (w, s, r) = (w', s', r')"
    and "logger r = Some l" and "truthy_str (logger_path l)"
  shows "\<exists>strm. filter opens (added w w') = [CreateWriteStream strm] \<and>
     ws_mode strm =
       (if logger_mode l = None \<or> logger_mode l = Some 0 then 420 else the (logger_mode l))"
proof -
  let ?strm = "\<lparr>ws_path = the (logger_path l), ws_flags = ''w'',
               ws_encoding = ''utf-8'', ws_mode = or_num (logger_mode l) octal_0644\<rparr>"
  have a: "filter opens (added w w') = [CreateWriteStream ?strm]"
    using register_middleware_added [OF assms(1)] assms(2,3)
    by (auto split: option.splits)
  have b: "ws_mode ?strm =
       (if logger_mode l = None \<or> logger_mode l = Some 0 then 420 else the (logger_mode l))"
    by (auto simp: or_num_def truthy_num_def octal_0644_def split: option.splits)
  from a b show ?thesis by - (rule exI conjI | assumption)+
qed

theorem log_stream_mode_witness:
  "\<exists>w' s' r' strm.
     register_middleware (fst (createServer None world_empty),
       snd (createServer None world_empty),
       (options_001 ''/srv'')\<lparr>logger := Some \<lparr>logger_path = Some ''/srv/x.log'',
          logger_mode = None, logger_stream = None\<rparr>\<rparr>) = (w', s', r') \<and>
     filter opens (added (fst (createServer None world_empty)) w') = [CreateWriteStream strm] \<and>
     ws_mode strm = 420"
proof -
  obtain w' s' r' where
    reg: "register_middleware (fst (createServer None world_empty),
       snd (createServer None world_empty),
       (options_001 ''/srv'')\<lparr>logger := Some \<lparr>logger_path = Some ''/srv/x.log'',
          logger_mode = None, logger_stream = None\<rparr>\<rparr>) = (w', s', r')"
    by (metis prod_cases3)
  have lg: "logger ((options_001 ''/srv'')\<lparr>logger := Some \<lparr>logger_path = Some ''/srv/x.log'',
          logger_mode = None, logger_stream = None\<rparr>\<rparr>) =
      Some \<lparr>logger_path = Some ''/srv/x.log'', logger_mode = None, logger_stream = None\<rparr>"
    by simp
  have tr: "truthy_str (logger_path \<lparr>logger_path = Some ''/srv/x.log'',
      logger_mode = None, logger_stream = None\<rparr>)"
    by (simp add: truthy_str_def)
  from log_stream_mode [OF reg lg tr] obtain strm where
    a: "filter opens (added (fst (createServer None world_empty)) w') = [CreateWriteStream strm]" and
    b: "ws_mode strm = (if logger_mode \<lparr>logger_path = Some ''/srv/x.log'',
            logger_mode = None, logger_stream = None\<rparr> = None \<or>
          logger_mode \<lparr>logger_path = Some ''/srv/x.log'',
            logger_mode = None, logger_stream = None\<rparr> = Some 0 then 420
          else the (logger_mode \<lparr>logger_path = Some ''/srv/x.log'',
            logger_mode = None, logger_stream = None\<rparr>))"
    by (elim exE conjE)
  from b have b': "ws_mode strm = 420" by simp
  from reg a b' show ?thesis by - (rule exI conjI | assumption)+
qed

subsection \<open>C9: construction before listening\<close>

text \<open>
  Claim C9: the calls \<^verbatim>\<open>002_https.js\<close> makes fall into two phases around the
  registration of the signal handler. Before it come all file reads, server
  constructions, stream openings and middleware registrations, one server
  construction per record, and no \<^verbatim>\<open>listen\<close>; after it come no such calls, only
  the start-up lines and the \<^verbatim>\<open>listen\<close> calls. The middleware registered on
  each server in the first phase is the whole of the stack the server ends with,
  and that stack holds every stage its record calls for, in the fixed order.
\<close>

theorem construction_before_listening:
  assumes "main_002 opts w = Inr st"
  shows "\<exists>pre post. added w (env st) = pre @ [OnSIGHUP] @ post \<and>
     (\<forall>e\<in>set pre. constructs e \<and> \<not> binds e) \<and>
     length (filter creates pre) = length opts \<and>
     (\<forall>e\<in>set post. \<not> constructs e) \<and>
     (\<forall>i<length opts. uses_of (sid (apps st ! i)) pre = stack (apps st ! i) \<and>
       map stage_of (stack (apps st ! i)) =
         (case favicon (opts ! i) of None \<Rightarrow> [] | Some f \<Rightarrow> [FaviconResponder]) @
         (case logger (opts ! i) of None \<Rightarrow> []
          | Some l \<Rightarrow> if truthy_str (logger_path l) then [AccessLogger] else []) @
         (case static (opts ! i) of None \<Rightarrow> []
          | Some t \<Rightarrow> if truthy_str (static_path t) then [StaticResponder] else []) @
         (case directory (opts ! i) of None \<Rightarrow> []
          | Some d \<Rightarrow> if truthy_str (directory_path d) then [DirectoryResponder] else []))"
proof (rule main_002_phases [OF assms])
  fix pre post
  assume "added w (env st) = pre @ [OnSIGHUP] @ post"
    and "\<forall>e\<in>set pre. constructs e \<and> \<not> binds e"
    and "length (filter creates pre) = length opts"
    and "\<forall>e\<in>set post. \<not> constructs e"
    and "\<forall>i<length opts. uses_of (sid (apps st ! i)) pre = stack (apps st ! i) \<and>
       map stage_of (stack (apps st ! i)) =
         (case favicon (opts ! i) of None \<Rightarrow> [] | Some f \<Rightarrow> [FaviconResponder]) @
         (case logger (opts ! i) of None \<Rightarrow> []
          | Some l \<Rightarrow> if truthy_str (logger_path l) then [AccessLogger] else []) @
         (case static (opts ! i) of None \<Rightarrow> []
          | Some t \<Rightarrow> if truthy_str (static_path t) then [StaticResponder] else []) @
         (case directory (opts ! i) of None \<Rightarrow> []
          | Some d \<Rightarrow> if truthy_str (directory_path d) then [DirectoryResponder] else [])"
  then show ?thesis by - (rule exI conjI | assumption)+
qed

theorem construction_before_listening_witness:
  "\<exists>st pre post. main_002 (options_002 ''/srv'') (world_002 ''/srv'') = Inr st \<and>
     trace (env st) = pre @ [OnSIGHUP] @ post \<and>
     (\<forall>e\<in>set pre. constructs e \<and> \<not> binds e) \<and>
     length (filter creates pre) = 2 \<and>
     (\<forall>e\<in>set post. \<not> constructs e) \<and>
     map stage_of (uses_of (sid (apps st ! 0)) pre) =
       [FaviconResponder, AccessLogger, StaticResponder] \<and>
     map stage_of (uses_of (sid (apps st ! 1)) pre) =
       [FaviconResponder, AccessLogger, StaticResponder]"
proof -
  from main_002_shipped obtain st where
    m: "main_002 (options_002 ''/srv'') (world_002 ''/srv'') = Inr st"
    by (cases "main_002 (options_002 ''/srv'') (world_002 ''/srv'')") simp_all
  from construction_before_listening [OF m] obtain pre post where
    a: "added (world_002 ''/srv'') (env st) = pre @ [OnSIGHUP] @ post" and
    b: "\<forall>e\<in>set pre. constructs e \<and> \<not> binds e" and
    c: "length (filter creates pre) = length (options_002 ''/srv'')" and
    d: "\<forall>e\<in>set post. \<not> constructs e" and
    e: "\<forall>i<length (options_002 ''/srv''). uses_of (sid (apps st ! i)) pre = stack (apps st ! i) \<and>
       map stage_of (stack (apps st ! i)) =
         (case favicon (options_002 ''/srv'' ! i) of None \<Rightarrow> [] | Some f \<Rightarrow> [FaviconResponder]) @
         (case logger (options_002 ''/srv'' ! i) of None \<Rightarrow> []
          | Some l \<Rightarrow> if truthy_str (logger_path l) then [AccessLogger] else []) @
         (case static (options_002 ''/srv'' ! i) of None \<Rightarrow> []
          | Some t \<Rightarrow> if truthy_str (static_path t) then [StaticResponder] else []) @
         (case directory (options_002 ''/srv'' ! i) of None \<Rightarrow> []
          | Some d \<Rightarrow> if truthy_str (directory_path d) then [DirectoryResponder] else [])"
    by (elim exE conjE)
  from a have a': "trace (env st) = pre @ [OnSIGHUP] @ post"
    by (simp add: added_def world_002_def)
  from c have c': "length (filter creates pre) = 2"
    by (simp add: options_002_def)
  have i0: "0 < length (options_002 ''/srv'')" and i1: "1 < length (options_002 ''/srv'')"
    by (simp_all add: options_002_def)
  from e [rule_format, OF i0] have f0: "map stage_of (uses_of (sid (apps st ! 0)) pre) =
       [FaviconResponder, AccessLogger, StaticResponder]"
    by (simp add: options_002_def truthy_str_def)
  from e [rule_format, OF i1] have f1: "map stage_of (uses_of (sid (apps st ! 1)) pre) =
       [FaviconResponder, AccessLogger, StaticResponder]"
    by (simp add: options_002_def truthy_str_def)
  from m a' b c' d f0 f1 show ?thesis by - (rule exI conjI | assumption)+
qed

subsection \<open>C10: the start-up line of \<^verbatim>\<open>001_static.js\<close>\<close>

text \<open>
  Claim C10 says the start-up line is printed unconditionally, also when the
  \<^verbatim>\<open>listen\<close> field is absent. Line 191 reads \<^verbatim>\<open>options.listen.port\<close> without
  the guard that line 187 has: with the shipped options less their \<^verbatim>\<open>listen\<close>
  field the script ends in a TypeError and prints nothing. With a \<^verbatim>\<open>listen\<close>
  field the line is printed whether or not a socket was bound
  (\<open>main_001_listen_present\<close>).
\<close>

theorem startup_line_needs_listen_field:
  "main_001 ((options_001 ''/srv'')\<lparr>listen := None\<rparr>) world_empty =
     Inl (TypeError ''options.listen is undefined'')"
  by (rule main_001_listen_absent) simp

end
